theory Spec2Isabelle
  imports Main "HOL-Library.Word"
begin

unbundle bit_operations_syntax

section \<open>The controller as the driver sees it\<close>

text \<open>
  The driver of \<^verbatim>\<open>platform/msm_shared/sdhci.c\<close> talks to the SD host controller
  through the macros \<^verbatim>\<open>REG_READ8/16/32\<close> and \<^verbatim>\<open>REG_WRITE8/16/32\<close>. The registers
  are named here as the source names them; \<^verbatim>\<open>SDHCI_RESP_REG + (i * 4)\<close> is
  \<open>SDHCI_RESP_REG (i * 4)\<close>, the response register at that byte offset.
\<close>

datatype reg =
    SDHCI_ARG2_REG
  | SDHCI_BLKSZ_REG
  | SDHCI_BLK_CNT_REG
  | SDHCI_ARGUMENT_REG
  | SDHCI_TRANS_MODE_REG
  | SDHCI_CMD_REG
  | SDHCI_RESP_REG nat
  | SDHCI_PRESENT_STATE_REG
  | SDHCI_HOST_CTRL1_REG
  | SDHCI_CLK_CTRL_REG
  | SDHCI_TIMEOUT_REG
  | SDHCI_RESET_REG
  | SDHCI_NRML_INT_STS_REG
  | SDHCI_ERR_INT_STS_REG
  | SDHCI_ADM_ADDR_REG

text \<open>
  Everything the driver does to the outside is recorded, in order: register writes,
  delays, diagnostic messages (the format string, without level and final newline),
  allocations and releases, cache maintenance.
\<close>

datatype event =
    Write8 reg "8 word"
  | Write16 reg "16 word"
  | Write32 reg "32 word"
  | Udelay nat
  | Dprintf string
  | Memalign nat "32 word" "32 word"
  | Free "32 word"
  | Clean_invalidate_cache "32 word" "32 word"
  | Invalidate_cache "32 word" "32 word"

text \<open>
  Registers are volatile: what a read returns is the controller's business. \<open>reg_in r n\<close>
  is the value the controller shows in register \<open>r\<close> at the \<open>n\<close>-th read the driver
  makes (reads are counted over all registers), \<open>alloc_in k\<close> the pointer the \<open>k\<close>-th
  call of \<^verbatim>\<open>memalign\<close> returns (0 is \<^verbatim>\<open>NULL\<close>).
\<close>

record world =
  reg_in :: "reg \<Rightarrow> nat \<Rightarrow> 32 word"
  nreads :: nat
  alloc_in :: "nat \<Rightarrow> 32 word"
  nallocs :: nat
  events :: "event list"

definition emit :: "world \<Rightarrow> event \<Rightarrow> world" where
  "emit w e = w\<lparr>events := events w @ [e]\<rparr>"

definition REG_READ32 :: "world \<Rightarrow> reg \<Rightarrow> 32 word \<times> world" where
  "REG_READ32 w r = (reg_in w r (nreads w), w\<lparr>nreads := Suc (nreads w)\<rparr>)"

definition REG_READ16 :: "world \<Rightarrow> reg \<Rightarrow> 16 word \<times> world" where
  "REG_READ16 w r = (ucast (reg_in w r (nreads w)), w\<lparr>nreads := Suc (nreads w)\<rparr>)"

definition REG_READ8 :: "world \<Rightarrow> reg \<Rightarrow> 8 word \<times> world" where
  "REG_READ8 w r = (ucast (reg_in w r (nreads w)), w\<lparr>nreads := Suc (nreads w)\<rparr>)"

definition REG_WRITE8 :: "world \<Rightarrow> 8 word \<Rightarrow> reg \<Rightarrow> world" where
  "REG_WRITE8 w v r = emit w (Write8 r v)"

definition REG_WRITE16 :: "world \<Rightarrow> 16 word \<Rightarrow> reg \<Rightarrow> world" where
  "REG_WRITE16 w v r = emit w (Write16 r v)"

definition REG_WRITE32 :: "world \<Rightarrow> 32 word \<Rightarrow> reg \<Rightarrow> world" where
  "REG_WRITE32 w v r = emit w (Write32 r v)"

definition udelay :: "world \<Rightarrow> nat \<Rightarrow> world" where
  "udelay w us = emit w (Udelay us)"

definition dprintf :: "world \<Rightarrow> string \<Rightarrow> world" where
  "dprintf w msg = emit w (Dprintf msg)"

fun is_write :: "event \<Rightarrow> bool" where
  "is_write (Write8 r v) = True"
| "is_write (Write16 r v) = True"
| "is_write (Write32 r v) = True"
| "is_write e = False"

fun writes_reg :: "reg \<Rightarrow> event \<Rightarrow> bool" where
  "writes_reg r (Write8 r' v) = (r' = r)"
| "writes_reg r (Write16 r' v) = (r' = r)"
| "writes_reg r (Write32 r' v) = (r' = r)"
| "writes_reg r e = False"

fun is_free :: "event \<Rightarrow> bool" where
  "is_free (Free p) = True"
| "is_free e = False"

text \<open>What stops the boot flow: a failed \<^verbatim>\<open>ASSERT\<close>, a division by zero, a store
  past the end of an allocated table.\<close>

datatype fault = Assert_failed | Divide_by_zero | Out_of_bounds

section \<open>The host and its clock\<close>

text \<open>\<^verbatim>\<open>struct sdhci_host\<close> and its capability record, with the fields that the functions
  below read and write.\<close>

record sdhci_caps =
  base_clk_rate :: "32 word"

record sdhci_host =
  caps :: sdhci_caps
  cur_clk_rate :: "32 word"

text \<open>
  The constants of \<^verbatim>\<open>sdhci.h\<close> that \<^verbatim>\<open>sdhci_clk_supply\<close> uses. The header is not
  among the sources, so the constants are parameters of the model: every theorem holds
  for the values it states its assumptions about. Masks that meet a 16-bit value are
  kept at 16 bits; shift counts are natural numbers (a shift by the width or more gives
  0 here and is undefined in C, and no theorem relies on one).
\<close>

record clk_defs =
  SDHCI_CLK_MAX_DIV :: "32 word"
  SDHCI_SDCLK_FREQ_MASK :: "32 word"
  SDHCI_SDCLK_FREQ_SEL :: nat
  SDHC_SDCLK_UP_BIT_MASK :: "32 word"
  SDHCI_SDCLK_UP_BIT_SEL :: nat
  SDHCI_INT_CLK_EN :: "16 word"
  SDHCI_CLK_STABLE :: "16 word"
  SDHCI_CLK_EN :: "16 word"

text \<open>
  Lines 117 to 121: \<^verbatim>\<open>for (div = 2; div < SDHCI_CLK_MAX_DIV; div += 2)\<close>, entered at
  \<open>d\<close> with the last \<^verbatim>\<open>freq\<close> computed. The result is \<^verbatim>\<open>div\<close> and \<^verbatim>\<open>freq\<close> as the
  loop leaves them. \<^verbatim>\<open>div\<close> is a \<^verbatim>\<open>uint32_t\<close>: past \<open>2^32 - 2\<close> it wraps to 0 and the
  division traps.
\<close>

function clk_div_scan ::
  "32 word \<Rightarrow> 32 word \<Rightarrow> 32 word \<Rightarrow> 32 word \<Rightarrow> 32 word \<Rightarrow> fault + 32 word \<times> 32 word"
where
  "clk_div_scan max_div base clk d freq =
     (if d < max_div then
        (if d = 0 then Inl Divide_by_zero
         else if base div d \<le> clk then Inr (d, base div d)
         else clk_div_scan max_div base clk (d + 2) (base div d))
      else Inr (d, freq))"
  by pat_completeness auto

lemma scan_step_measure:
  fixes d max_div :: "32 word"
  assumes "d < max_div" "d \<noteq> 0"
  shows "(if d + 2 = 0 then 0 else 2 ^ 32 - unat (d + 2)) < (2 ^ 32 - unat d :: nat)"
proof -
  have m: "unat max_div < 2 ^ 32" using unsigned_less [of max_div] by simp
  have lt: "unat d < unat max_div" using assms(1) by (simp add: word_less_nat_alt)
  have u: "unat (d + 2) = (if unat d + 2 < 2 ^ 32 then unat d + 2 else unat d + 2 - 2 ^ 32)"
    using unat_plus_if' [of d 2] by simp
  show ?thesis
  proof (cases "d + 2 = 0")
    case True
    then show ?thesis using lt m by simp
  next
    case False
    then have "unat (d + 2) \<noteq> 0" by (simp add: unat_0_iff)
    then have "unat d + 2 < 2 ^ 32" using u lt m by (simp split: if_splits)
    then show ?thesis using u False by simp
  qed
qed

termination clk_div_scan
  apply (relation "measure (\<lambda>(m, b, c, d, f). if d = 0 then 0 else 2 ^ 32 - unat d)")
   apply simp
  using scan_step_measure apply simp
  done

declare clk_div_scan.simps [simp del]

text \<open>
  Lines 113 to 123: \<^verbatim>\<open>div\<close> and \<^verbatim>\<open>freq\<close> at the label \<^verbatim>\<open>clk_ctrl\<close>. Both start at 0;
  a request for the base rate jumps to the label at once, every other request runs the
  scan and halves \<^verbatim>\<open>div\<close>.
\<close>

definition clk_div_select :: "clk_defs \<Rightarrow> 32 word \<Rightarrow> 32 word \<Rightarrow> fault + 32 word \<times> 32 word" where
  "clk_div_select k base clk =
     (if clk = base then Inr (0, 0)
      else case clk_div_scan (SDHCI_CLK_MAX_DIV k) base clk 2 0 of
             Inl f \<Rightarrow> Inl f
           | Inr (d, freq) \<Rightarrow> Inr (drop_bit 1 d, freq))"

text \<open>Lines 132 to 136: the value of \<^verbatim>\<open>clk_val\<close>, a \<^verbatim>\<open>uint16_t\<close>, for a divider.\<close>

definition clk_ctrl_val :: "clk_defs \<Rightarrow> 32 word \<Rightarrow> 16 word" where
  "clk_ctrl_val k d =
     ucast (push_bit (SDHCI_SDCLK_FREQ_SEL k) (d AND SDHCI_SDCLK_FREQ_MASK k))
     OR ucast (push_bit (SDHCI_SDCLK_UP_BIT_SEL k)
          (drop_bit (SDHCI_SDCLK_FREQ_SEL k) (d AND SDHC_SDCLK_UP_BIT_MASK k)))
     OR SDHCI_INT_CLK_EN k"

text \<open>
  Line 140: \<^verbatim>\<open>while (!(REG_READ16(host, SDHCI_CLK_CTRL_REG) & SDHCI_CLK_STABLE));\<close>.
  The loop has no bound: on a controller that never reports a stable clock it does not
  return, which is the value \<open>None\<close>.
\<close>

partial_function (option) clk_stable_wait :: "clk_defs \<Rightarrow> world \<Rightarrow> world option" where
  "clk_stable_wait k w =
     (if fst (REG_READ16 w SDHCI_CLK_CTRL_REG) AND SDHCI_CLK_STABLE k = 0
      then clk_stable_wait k (snd (REG_READ16 w SDHCI_CLK_CTRL_REG))
      else Some (snd (REG_READ16 w SDHCI_CLK_CTRL_REG)))"

text \<open>Lines 132 to 149, from the label \<^verbatim>\<open>clk_ctrl\<close> on.\<close>

definition clk_ctrl ::
  "clk_defs \<Rightarrow> sdhci_host \<Rightarrow> world \<Rightarrow> 32 word \<Rightarrow> 32 word \<Rightarrow> (32 word \<times> sdhci_host \<times> world) option"
where
  "clk_ctrl k host w d freq =
     (case clk_stable_wait k (REG_WRITE16 w (clk_ctrl_val k d) SDHCI_CLK_CTRL_REG) of
        None \<Rightarrow> None
      | Some w2 \<Rightarrow>
          (case REG_READ16 w2 SDHCI_CLK_CTRL_REG of
             (clk_val, w3) \<Rightarrow>
               Some (0, host\<lparr>cur_clk_rate := freq\<rparr>,
                     REG_WRITE16 w3 (clk_val OR SDHCI_CLK_EN k) SDHCI_CLK_CTRL_REG)))"

text \<open>
  \<^verbatim>\<open>sdhci_clk_supply\<close> (lines 102 to 150). The result is \<open>None\<close> when the call does not
  return, a fault when the boot flow stops, and otherwise the returned value (0 on
  success, 1 on failure) with the host and the world as the call leaves them.
\<close>

definition sdhci_clk_supply ::
  "clk_defs \<Rightarrow> sdhci_host \<Rightarrow> world \<Rightarrow> 32 word \<Rightarrow> (fault + 32 word \<times> sdhci_host \<times> world) option"
where
  "sdhci_clk_supply k host w clk =
     (if clk > base_clk_rate (caps host) then
        Some (Inr (1, host, dprintf w ''Error: Requested clk freq is more than supported''))
      else
        (case clk_div_select k (base_clk_rate (caps host)) clk of
           Inl f \<Rightarrow> Some (Inl f)
         | Inr (d, freq) \<Rightarrow> map_option Inr (clk_ctrl k host w d freq)))"

section \<open>Bus width\<close>

text \<open>The width tags of the caller and the bit patterns of the host control register,
  both from headers that are not among the sources.\<close>

record width_defs =
  DATA_BUS_WIDTH_8BIT :: "16 word"
  DATA_BUS_WIDTH_4BIT :: "16 word"
  DATA_BUS_WIDTH_1BIT :: "16 word"
  SDHCI_BUS_WITDH_8BIT :: "16 word"
  SDHCI_BUS_WITDH_4BIT :: "16 word"
  SDHCI_BUS_WITDH_1BIT :: "16 word"

text \<open>The \<^verbatim>\<open>switch\<close> of lines 310 to 323: the new value of \<^verbatim>\<open>width\<close>, or \<open>None\<close> for the
  \<^verbatim>\<open>default\<close> branch.\<close>

definition bus_width_pattern :: "width_defs \<Rightarrow> 16 word \<Rightarrow> 16 word option" where
  "bus_width_pattern k width =
     (if width = DATA_BUS_WIDTH_8BIT k then Some (SDHCI_BUS_WITDH_8BIT k)
      else if width = DATA_BUS_WIDTH_4BIT k then Some (SDHCI_BUS_WITDH_4BIT k)
      else if width = DATA_BUS_WIDTH_1BIT k then Some (SDHCI_BUS_WITDH_1BIT k)
      else None)"

text \<open>\<^verbatim>\<open>sdhci_set_bus_width\<close> (lines 304 to 328); \<^verbatim>\<open>reg\<close> is a \<^verbatim>\<open>uint16_t\<close> read with
  \<^verbatim>\<open>REG_READ8\<close>, and \<^verbatim>\<open>REG_WRITE8\<close> stores the low byte of \<^verbatim>\<open>reg | width\<close>.\<close>

definition sdhci_set_bus_width :: "width_defs \<Rightarrow> world \<Rightarrow> 16 word \<Rightarrow> 8 word \<times> world" where
  "sdhci_set_bus_width k w width =
     (case REG_READ8 w SDHCI_HOST_CTRL1_REG of
        (r, w1) \<Rightarrow>
          (case bus_width_pattern k width of
             None \<Rightarrow> (1, dprintf w1 ''Bus width is invalid: %u'')
           | Some width' \<Rightarrow>
               (0, REG_WRITE8 w1 (ucast ((ucast r :: 16 word) OR width')) SDHCI_HOST_CTRL1_REG)))"


section \<open>Commands\<close>

record mmc_data =
  data_ptr :: "32 word"
  num_blocks :: "32 word"

text \<open>
  \<^verbatim>\<open>struct mmc_command\<close>, with the fields the driver reads and writes. \<^verbatim>\<open>resp\<close> is the
  array of four response words, indexed from 0.
\<close>

record mmc_command =
  cmd_index :: "16 word"
  argument :: "32 word"
  data_present :: "8 word"
  cmd_type :: "8 word"
  resp_type :: "16 word"
  resp :: "nat \<Rightarrow> 32 word"
  trans_mode :: "32 word"
  data :: mmc_data

text \<open>The masks of the error interrupt status register, in the order in which
  \<^verbatim>\<open>sdhci_cmd_err_status\<close> tests them.\<close>

record err_defs =
  SDHCI_CMD_TIMEOUT_MASK :: "16 word"
  SDHCI_CMD_CRC_MASK :: "16 word"
  SDHCI_CMD_END_BIT_MASK :: "16 word"
  SDHCI_CMD_IDX_MASK :: "16 word"
  SDHCI_DAT_TIMEOUT_MASK :: "16 word"
  SDHCI_DAT_CRC_MASK :: "16 word"
  SDHCI_DAT_END_BIT_MASK :: "16 word"
  SDHCI_CUR_LIM_MASK :: "16 word"
  SDHCI_AUTO_CMD12_MASK :: "16 word"
  SDHCI_ADMA_MASK :: "16 word"

text \<open>\<^verbatim>\<open>sdhci_cmd_err_status\<close> (lines 336 to 375).\<close>

definition sdhci_cmd_err_status :: "err_defs \<Rightarrow> world \<Rightarrow> 8 word \<times> world" where
  "sdhci_cmd_err_status e w =
     (case REG_READ16 w SDHCI_ERR_INT_STS_REG of
        (err, w1) \<Rightarrow>
          if err AND SDHCI_CMD_TIMEOUT_MASK e \<noteq> 0 then
            (1, dprintf w1 ''Error: Command timeout error'')
          else if err AND SDHCI_CMD_CRC_MASK e \<noteq> 0 then
            (1, dprintf w1 ''Error: Command CRC error'')
          else if err AND SDHCI_CMD_END_BIT_MASK e \<noteq> 0 then
            (1, dprintf w1 ''Error: CMD end bit error'')
          else if err AND SDHCI_CMD_IDX_MASK e \<noteq> 0 then
            (1, dprintf w1 ''Error: Command Index error'')
          else if err AND SDHCI_DAT_TIMEOUT_MASK e \<noteq> 0 then
            (1, dprintf w1 ''Error: DATA time out error'')
          else if err AND SDHCI_DAT_CRC_MASK e \<noteq> 0 then
            (1, dprintf w1 ''Error: DATA CRC error'')
          else if err AND SDHCI_DAT_END_BIT_MASK e \<noteq> 0 then
            (1, dprintf w1 ''Error: DATA end bit error'')
          else if err AND SDHCI_CUR_LIM_MASK e \<noteq> 0 then
            (1, dprintf w1 ''Error: Current limit error'')
          else if err AND SDHCI_AUTO_CMD12_MASK e \<noteq> 0 then
            (1, dprintf w1 ''Error: Auto CMD12 error'')
          else if err AND SDHCI_ADMA_MASK e \<noteq> 0 then
            (1, dprintf w1 ''Error: ADMA error'')
          else (0, w1))"

text \<open>
  The constants \<^verbatim>\<open>sdhci_cmd_complete\<close> uses. The status masks meet \<^verbatim>\<open>int_status\<close>, a
  \<^verbatim>\<open>uint32_t\<close>; the retry bounds are compared with \<^verbatim>\<open>retry\<close>, a \<^verbatim>\<open>uint16_t\<close>, as
  integers.
\<close>

record cmd_defs =
  SDHCI_INT_STS_CMD_COMPLETE :: "32 word"
  SDHCI_INT_STS_TRANS_COMPLETE :: "32 word"
  SDHCI_ERR_INT_STAT_MASK :: "32 word"
  SDHCI_MAX_CMD_RETRY :: nat
  SDHCI_MAX_TRANS_RETRY :: nat
  SDHCI_CMD_RESP_R2 :: "16 word"
  SDHCI_RESP_LSHIFT :: nat
  SDHCI_RESP_RSHIFT :: nat
  SDHCI_SWITCH_CMD :: "16 word"
  SOFT_RESET_CMD :: "8 word"
  SOFT_RESET_DATA :: "8 word"

text \<open>
  Lines 392 to 405, the wait for command complete, entered with \<^verbatim>\<open>retry\<close>. The result
  is \<open>True\<close> at the \<^verbatim>\<open>break\<close> and \<open>False\<close> at the \<^verbatim>\<open>goto err\<close>. \<^verbatim>\<open>retry\<close> wraps at
  \<open>2^16\<close>, so with a bound it never equals the loop runs for as long as the bit is clear.
\<close>

partial_function (option) cmd_complete_wait ::
  "cmd_defs \<Rightarrow> world \<Rightarrow> 16 word \<Rightarrow> (bool \<times> world) option"
where
  "cmd_complete_wait k w retry =
     (if ucast (fst (REG_READ16 w SDHCI_NRML_INT_STS_REG)) AND SDHCI_INT_STS_CMD_COMPLETE k
           = SDHCI_INT_STS_CMD_COMPLETE k
      then Some (True, snd (REG_READ16 w SDHCI_NRML_INT_STS_REG))
      else if unat (retry + 1) = SDHCI_MAX_CMD_RETRY k
      then Some (False, dprintf (udelay (snd (REG_READ16 w SDHCI_NRML_INT_STS_REG)) 500)
                          ''Error: Command never completed'')
      else cmd_complete_wait k (udelay (snd (REG_READ16 w SDHCI_NRML_INT_STS_REG)) 500)
             (retry + 1))"

text \<open>Lines 436 to 449, the wait for transfer complete, in the same way.\<close>

partial_function (option) trans_complete_wait ::
  "cmd_defs \<Rightarrow> world \<Rightarrow> 16 word \<Rightarrow> (bool \<times> world) option"
where
  "trans_complete_wait k w retry =
     (if (ucast (fst (REG_READ16 w SDHCI_NRML_INT_STS_REG)) AND SDHCI_INT_STS_TRANS_COMPLETE k)
           AND SDHCI_INT_STS_TRANS_COMPLETE k \<noteq> 0
      then Some (True, snd (REG_READ16 w SDHCI_NRML_INT_STS_REG))
      else if unat (retry + 1) = SDHCI_MAX_TRANS_RETRY k
      then Some (False, dprintf (udelay (snd (REG_READ16 w SDHCI_NRML_INT_STS_REG)) 1000)
                          ''Error: Transfer never completed'')
      else trans_complete_wait k (udelay (snd (REG_READ16 w SDHCI_NRML_INT_STS_REG)) 1000)
             (retry + 1))"

text \<open>
  Lines 420 to 426, the loop that copies a 136-bit response, entered at \<open>i\<close>: the
  register is read and shifted left, and from the second word on the register before it
  is read again and its top bits are or-ed in.
\<close>

function resp_r2_copy ::
  "cmd_defs \<Rightarrow> nat \<Rightarrow> world \<Rightarrow> (nat \<Rightarrow> 32 word) \<Rightarrow> (nat \<Rightarrow> 32 word) \<times> world"
where
  "resp_r2_copy k i w rsp =
     (if i < 4 then
        (case REG_READ32 w (SDHCI_RESP_REG (i * 4)) of
           (v, w1) \<Rightarrow>
             (if i \<noteq> 0 then
                (case REG_READ32 w1 (SDHCI_RESP_REG ((i - 1) * 4)) of
                   (p, w2) \<Rightarrow>
                     resp_r2_copy k (i + 1) w2
                       (rsp(i := push_bit (SDHCI_RESP_LSHIFT k) v
                                   OR drop_bit (SDHCI_RESP_RSHIFT k) p)))
              else resp_r2_copy k (i + 1) w1 (rsp(i := push_bit (SDHCI_RESP_LSHIFT k) v))))
      else (rsp, w))"
  by pat_completeness auto
termination
  by (relation "measure (\<lambda>(k, i, w, rsp). 4 - i)") auto

declare resp_r2_copy.simps [simp del]

text \<open>Lines 419 to 428.\<close>

definition copy_response :: "cmd_defs \<Rightarrow> world \<Rightarrow> mmc_command \<Rightarrow> mmc_command \<times> world" where
  "copy_response k w cmd =
     (if resp_type cmd = SDHCI_CMD_RESP_R2 k then
        (case resp_r2_copy k 0 w (resp cmd) of (rsp, w1) \<Rightarrow> (cmd\<lparr>resp := rsp\<rparr>, w1))
      else
        (case REG_READ32 w (SDHCI_RESP_REG 0) of
           (v, w1) \<Rightarrow> (cmd\<lparr>resp := (resp cmd)(0 := v)\<rparr>, w1)))"

text \<open>Lines 455 to 469, from the label \<^verbatim>\<open>err\<close> to the end of \<^verbatim>\<open>sdhci_cmd_complete\<close>.\<close>

definition cmd_complete_err ::
  "cmd_defs \<Rightarrow> err_defs \<Rightarrow> world \<Rightarrow> mmc_command \<Rightarrow> 8 word \<times> mmc_command \<times> world"
where
  "cmd_complete_err k e w cmd =
     (case REG_READ16 w SDHCI_NRML_INT_STS_REG of
        (s, w1) \<Rightarrow>
          (case (if (ucast s :: 32 word) AND SDHCI_ERR_INT_STAT_MASK k \<noteq> 0
                 then sdhci_cmd_err_status e w1 else (0, w1)) of
             (failed, w2) \<Rightarrow>
               if failed \<noteq> 0 then
                 (1, cmd, dprintf w2 ''Error: Command completed with errors'')
               else if data_present cmd \<noteq> 0 then
                 (0, cmd, REG_WRITE8 w2 (SOFT_RESET_CMD k OR SOFT_RESET_DATA k) SDHCI_RESET_REG)
               else (0, cmd, w2)))"

text \<open>
  \<^verbatim>\<open>sdhci_cmd_complete\<close> (lines 386 to 470): the returned value, the command with its
  response words, and the world; \<open>None\<close> when a wait does not end.
\<close>

definition sdhci_cmd_complete ::
  "cmd_defs \<Rightarrow> err_defs \<Rightarrow> world \<Rightarrow> mmc_command \<Rightarrow> (8 word \<times> mmc_command \<times> world) option"
where
  "sdhci_cmd_complete k e w cmd =
     (case cmd_complete_wait k w 0 of
        None \<Rightarrow> None
      | Some (False, w1) \<Rightarrow> Some (cmd_complete_err k e w1 cmd)
      | Some (True, w1) \<Rightarrow>
          (case copy_response k
                  (REG_WRITE16 w1 (ucast (SDHCI_INT_STS_CMD_COMPLETE k)) SDHCI_NRML_INT_STS_REG)
                  cmd of
             (cmd1, w2) \<Rightarrow>
               if data_present cmd1 \<noteq> 0 \<or> cmd_index cmd1 = SDHCI_SWITCH_CMD k then
                 (case trans_complete_wait k w2 0 of
                    None \<Rightarrow> None
                  | Some (False, w3) \<Rightarrow> Some (cmd_complete_err k e w3 cmd1)
                  | Some (True, w3) \<Rightarrow>
                      Some (cmd_complete_err k e
                        (REG_WRITE16 w3 (ucast (SDHCI_INT_STS_TRANS_COMPLETE k))
                           SDHCI_NRML_INT_STS_REG) cmd1))
               else Some (cmd_complete_err k e w2 cmd1)))"


section \<open>The descriptor table\<close>

text \<open>
  \<^verbatim>\<open>struct desc_entry\<close> is declared in \<^verbatim>\<open>sdhci.h\<close>; the fields are the three the driver
  assigns, at the widths the comment of lines 520 to 526 gives them: a 16-bit transfer
  length, 16 bits of attributes and a 32-bit address, eight bytes in all.
\<close>

record desc_entry =
  tran_att :: "16 word"
  len :: "16 word"
  addr :: "32 word"

text \<open>A pointer to a descriptor table, with the table it points to; the null pointer has
  no table.\<close>

record sg_table =
  sg_ptr :: "32 word"
  sg_entries :: "desc_entry list"

record adma_defs =
  SDHCI_ADMA_DESC_LINE_SZ :: "32 word"
  SDHCI_ADMA_TRANS_VALID :: "16 word"
  SDHCI_ADMA_TRANS_DATA :: "16 word"
  SDHCI_ADMA_TRANS_END :: "16 word"

definition sizeof_desc_entry :: "32 word" where
  "sizeof_desc_entry = 8"

definition memalign :: "world \<Rightarrow> nat \<Rightarrow> 32 word \<Rightarrow> 32 word \<times> world" where
  "memalign w boundary sz =
     (alloc_in w (nallocs w),
      emit (w\<lparr>nallocs := Suc (nallocs w)\<rparr>) (Memalign boundary sz (alloc_in w (nallocs w))))"

definition free :: "world \<Rightarrow> 32 word \<Rightarrow> world" where
  "free w p = emit w (Free p)"

definition arch_clean_invalidate_cache_range :: "world \<Rightarrow> 32 word \<Rightarrow> 32 word \<Rightarrow> world" where
  "arch_clean_invalidate_cache_range w p sz = emit w (Clean_invalidate_cache p sz)"

definition arch_invalidate_cache_range :: "world \<Rightarrow> 32 word \<Rightarrow> 32 word \<Rightarrow> world" where
  "arch_invalidate_cache_range w p sz = emit w (Invalidate_cache p sz)"

text \<open>A table of \<open>n\<close> bytes after \<^verbatim>\<open>memset\<close>: the entries that fit, all zero.\<close>

definition zeroed_table :: "32 word \<Rightarrow> desc_entry list" where
  "zeroed_table n =
     replicate (unat n div unat sizeof_desc_entry) \<lparr>tran_att = 0, len = 0, addr = 0\<rparr>"

text \<open>\<^verbatim>\<open>sg_list[i] = e\<close>: a store past the end of the allocated table is a fault.\<close>

definition sg_store :: "desc_entry list \<Rightarrow> nat \<Rightarrow> desc_entry \<Rightarrow> fault + desc_entry list" where
  "sg_store tbl i e = (if i < length tbl then Inr (tbl[i := e]) else Inl Out_of_bounds)"

text \<open>An entry of the loop of lines 527 to 533: a full line of data at address \<open>a\<close>.\<close>

definition full_desc :: "adma_defs \<Rightarrow> 32 word \<Rightarrow> desc_entry" where
  "full_desc k a =
     \<lparr>tran_att = SDHCI_ADMA_TRANS_VALID k OR SDHCI_ADMA_TRANS_DATA k,
      len = ucast (SDHCI_ADMA_DESC_LINE_SZ k), addr = a\<rparr>"

text \<open>
  Lines 527 to 533, the loop over the first \<^verbatim>\<open>sg_len - 1\<close> entries, entered at \<open>i\<close>;
  \<open>buf\<close> and \<open>nbytes\<close> are the \<^verbatim>\<open>data\<close> and \<^verbatim>\<open>len\<close> of the source, which the loop
  advances.
\<close>

function desc_fill ::
  "adma_defs \<Rightarrow> 32 word \<Rightarrow> 32 word \<Rightarrow> desc_entry list \<Rightarrow> 32 word \<Rightarrow> 32 word
     \<Rightarrow> fault + desc_entry list \<times> 32 word \<times> 32 word"
where
  "desc_fill k sg_len i tbl buf nbytes =
     (if i < sg_len - 1 then
        (case sg_store tbl (unat i)
                \<lparr>tran_att = SDHCI_ADMA_TRANS_VALID k OR SDHCI_ADMA_TRANS_DATA k,
                 len = ucast (SDHCI_ADMA_DESC_LINE_SZ k), addr = buf\<rparr> of
           Inl f \<Rightarrow> Inl f
         | Inr tbl' \<Rightarrow>
             desc_fill k sg_len (i + 1) tbl' (buf + SDHCI_ADMA_DESC_LINE_SZ k)
               (nbytes - SDHCI_ADMA_DESC_LINE_SZ k))
      else Inr (tbl, buf, nbytes))"
  by pat_completeness auto

lemma desc_fill_measure:
  fixes i m :: "32 word"
  assumes "i < m"
  shows "unat m - unat (i + 1) < unat m - unat i"
proof -
  have "unat i < unat m" using assms by (simp add: word_less_nat_alt)
  moreover have "unat m < 2 ^ 32" using unsigned_less [of m] by simp
  ultimately have "unat (i + 1) = unat i + 1"
    using unat_plus_if' [of i 1] by simp
  then show ?thesis using \<open>unat i < unat m\<close> by simp
qed

termination desc_fill
  apply (relation "measure (\<lambda>(k, sg_len, i, tbl, buf, nbytes). unat (sg_len - 1) - unat i)")
   apply simp
  using desc_fill_measure apply simp
  done

declare desc_fill.simps [simp del]

text \<open>Lines 503 to 507: the number of entries of the table, \<^verbatim>\<open>sg_len\<close>, one more than
  the quotient when the division leaves a remainder.\<close>

definition desc_table_entries :: "adma_defs \<Rightarrow> 32 word \<Rightarrow> 32 word" where
  "desc_table_entries k nbytes =
     (let sg_len = nbytes div SDHCI_ADMA_DESC_LINE_SZ k;
          remain = nbytes - sg_len * SDHCI_ADMA_DESC_LINE_SZ k
      in if remain \<noteq> 0 then sg_len + 1 else sg_len)"

text \<open>
  \<^verbatim>\<open>sdhci_prep_desc_table\<close> (lines 478 to 547). A null pointer from \<^verbatim>\<open>memalign\<close> ends in
  \<^verbatim>\<open>ASSERT(0)\<close>. The result is the table pointer, with the table as the function has
  filled it.
\<close>

definition sdhci_prep_desc_table ::
  "adma_defs \<Rightarrow> world \<Rightarrow> 32 word \<Rightarrow> 32 word \<Rightarrow> fault + sg_table \<times> world"
where
  "sdhci_prep_desc_table k w buf nbytes =
     (if nbytes \<le> SDHCI_ADMA_DESC_LINE_SZ k then
        (case memalign w 4 sizeof_desc_entry of
           (p, w1) \<Rightarrow>
             if p = 0 then Inl Assert_failed
             else
               Inr (\<lparr>sg_ptr = p,
                     sg_entries =
                       [\<lparr>tran_att = SDHCI_ADMA_TRANS_VALID k OR SDHCI_ADMA_TRANS_DATA k
                                      OR SDHCI_ADMA_TRANS_END k,
                         len = ucast nbytes, addr = buf\<rparr>]\<rparr>,
                    arch_clean_invalidate_cache_range
                      (arch_clean_invalidate_cache_range w1 p sizeof_desc_entry) p 0))
      else if SDHCI_ADMA_DESC_LINE_SZ k = 0 then Inl Divide_by_zero
      else
        (let sg_len = desc_table_entries k nbytes;
             table_len = sg_len * sizeof_desc_entry
         in case memalign w 4 table_len of
              (p, w1) \<Rightarrow>
                if p = 0 then Inl Assert_failed
                else
                  (case desc_fill k sg_len 0 (zeroed_table table_len) buf nbytes of
                     Inl f \<Rightarrow> Inl f
                   | Inr (tbl, buf', nbytes') \<Rightarrow>
                       (case sg_store tbl (unat (sg_len - 1))
                               \<lparr>tran_att = SDHCI_ADMA_TRANS_VALID k OR SDHCI_ADMA_TRANS_DATA k
                                             OR SDHCI_ADMA_TRANS_END k,
                                len = ucast nbytes', addr = buf'\<rparr> of
                          Inl f \<Rightarrow> Inl f
                        | Inr tbl' \<Rightarrow>
                            Inr (\<lparr>sg_ptr = p, sg_entries = tbl'\<rparr>,
                                 arch_clean_invalidate_cache_range w1 p table_len)))))"

section \<open>Sending a command\<close>

record send_defs =
  SDHCI_STATE_CMD_DAT_MASK :: "16 word"
  SDHCI_CMD_RESP_R1 :: "16 word"
  SDHCI_CMD_RESP_R3 :: "16 word"
  SDHCI_CMD_RESP_R6 :: "16 word"
  SDHCI_CMD_RESP_R7 :: "16 word"
  SDHCI_CMD_RESP_R1B :: "16 word"
  SDHCI_CMD_RESP_NONE :: "16 word"
  SDHCI_CMD_RESP_48 :: "32 word"
  SDHCI_CMD_RESP_136 :: "32 word"
  SDHCI_CMD_RESP_48_BUSY :: "32 word"
  SDHCI_CMD_RESP_TYPE_SEL_BIT :: nat
  SDHCI_CMD_DATA_PRESENT_BIT :: nat
  SDHCI_CMD_CMD_TYPE_BIT :: nat
  SDHCI_CMD_TIMEOUT :: "8 word"
  SDHCI_PREP_CMD :: "16 word \<Rightarrow> 32 word \<Rightarrow> 16 word"
  IS_CACHE_LINE_ALIGNED :: "32 word \<Rightarrow> bool"
  SDHCI_MMC_BLK_SZ :: "32 word"
  SDHCI_MMC_READ :: "32 word"
  SDHCI_READ_MODE :: "32 word"
  SDHCI_TRANS_MULTI :: "16 word"
  SDHCI_AUTO_CMD23_EN :: "16 word"
  SDHCI_BLK_CNT_EN :: "16 word"
  SDHCI_DMA_EN :: "16 word"

text \<open>\<^verbatim>\<open>sdhci_adma_transfer\<close> (lines 557 to 602).\<close>

definition sdhci_adma_transfer ::
  "send_defs \<Rightarrow> adma_defs \<Rightarrow> world \<Rightarrow> mmc_command \<Rightarrow> fault + sg_table \<times> world"
where
  "sdhci_adma_transfer s a w cmd =
     (let num_blks = num_blocks (data cmd);
          sz = num_blks * SDHCI_MMC_BLK_SZ s
      in case sdhci_prep_desc_table a w (data_ptr (data cmd)) sz of
           Inl f \<Rightarrow> Inl f
         | Inr (adma_addr, w1) \<Rightarrow>
             (let w2 = REG_WRITE16 w1 (ucast (SDHCI_MMC_BLK_SZ s)) SDHCI_BLKSZ_REG;
                  tm1 = (if num_blks > 1
                         then SDHCI_TRANS_MULTI s OR SDHCI_AUTO_CMD23_EN s OR SDHCI_BLK_CNT_EN s
                         else 0);
                  w3 = (if num_blks > 1 then REG_WRITE32 w2 num_blks SDHCI_ARG2_REG else w2);
                  w4 = REG_WRITE16 w3 (ucast num_blks) SDHCI_BLK_CNT_REG;
                  tm2 = (if trans_mode cmd = SDHCI_MMC_READ s
                         then tm1 OR ucast (SDHCI_READ_MODE s) else tm1);
                  tm3 = tm2 OR SDHCI_DMA_EN s;
                  w5 = REG_WRITE32 w4 (sg_ptr adma_addr) SDHCI_ADM_ADDR_REG;
                  w6 = REG_WRITE16 w5 tm3 SDHCI_TRANS_MODE_REG
              in Inr (adma_addr, w6)))"

text \<open>Lines 636 to 649, the wait for free command and data lines, entered with
  \<^verbatim>\<open>retry\<close>, a \<^verbatim>\<open>uint8_t\<close>: \<open>True\<close> at the \<^verbatim>\<open>break\<close>, \<open>False\<close> where the function returns 1.\<close>

function lines_free_wait :: "send_defs \<Rightarrow> world \<Rightarrow> 8 word \<Rightarrow> bool \<times> world" where
  "lines_free_wait s w retry =
     (if (ucast (fst (REG_READ32 w SDHCI_PRESENT_STATE_REG)) :: 16 word)
           AND SDHCI_STATE_CMD_DAT_MASK s = 0
      then (True, snd (REG_READ32 w SDHCI_PRESENT_STATE_REG))
      else if retry + 1 = 10
      then (False, dprintf (udelay (snd (REG_READ32 w SDHCI_PRESENT_STATE_REG)) 1000)
                     ''Error: CMD or DAT lines were never freed'')
      else lines_free_wait s (udelay (snd (REG_READ32 w SDHCI_PRESENT_STATE_REG)) 1000)
             (retry + 1))"
  by pat_completeness auto

lemma lines_free_measure:
  fixes retry :: "8 word"
  assumes "retry + 1 \<noteq> 10"
  shows "unat (9 - (retry + 1)) < unat (9 - retry)"
proof -
  have "9 - retry \<noteq> 0" using assms by (metis add.commute diff_eq_eq add_0 numeral_Bit1 numeral_One one_add_one add.assoc numeral_plus_one semiring_norm(5) semiring_norm(8))
  from measure_unat [OF this] show ?thesis by (simp add: algebra_simps)
qed

termination lines_free_wait
  apply (relation "measure (\<lambda>(s, w, retry). unat (9 - retry))")
   apply simp
  using lines_free_measure apply simp
  done

declare lines_free_wait.simps [simp del]

text \<open>The \<^verbatim>\<open>switch\<close> of lines 651 to 684: the value of \<^verbatim>\<open>resp_type\<close>, or \<open>None\<close> for the
  \<^verbatim>\<open>default\<close> branch.\<close>

definition resp_type_sel :: "send_defs \<Rightarrow> cmd_defs \<Rightarrow> 16 word \<Rightarrow> 32 word option" where
  "resp_type_sel s k rt =
     (if rt = SDHCI_CMD_RESP_R1 s \<or> rt = SDHCI_CMD_RESP_R3 s \<or> rt = SDHCI_CMD_RESP_R6 s
         \<or> rt = SDHCI_CMD_RESP_R7 s then Some (SDHCI_CMD_RESP_48 s)
      else if rt = SDHCI_CMD_RESP_R2 k then Some (SDHCI_CMD_RESP_136 s)
      else if rt = SDHCI_CMD_RESP_R1B s then Some (SDHCI_CMD_RESP_48_BUSY s)
      else if rt = SDHCI_CMD_RESP_NONE s then Some (ucast (SDHCI_CMD_RESP_NONE s))
      else None)"

text \<open>Lines 707 to 715, after a command that completed: the cache of a read buffer is
  invalidated and the descriptor table, if there is one, released.\<close>

definition send_command_finish :: "send_defs \<Rightarrow> world \<Rightarrow> mmc_command \<Rightarrow> sg_table \<Rightarrow> world" where
  "send_command_finish s w cmd sg_list =
     (let w1 = (if trans_mode cmd = SDHCI_MMC_READ s
                then arch_invalidate_cache_range w (data_ptr (data cmd))
                       (num_blocks (data cmd) * SDHCI_MMC_BLK_SZ s)
                else w)
      in if sg_ptr sg_list \<noteq> 0 then free w1 (sg_ptr sg_list) else w1)"

text \<open>
  \<^verbatim>\<open>sdhci_send_command\<close> (lines 613 to 716). \<open>None\<close> when the call does not return, a
  fault where an \<^verbatim>\<open>ASSERT\<close> fails, and otherwise the returned value with the command and
  the world as the call leaves them.
\<close>

definition sdhci_send_command ::
  "send_defs \<Rightarrow> cmd_defs \<Rightarrow> err_defs \<Rightarrow> adma_defs \<Rightarrow> world \<Rightarrow> mmc_command
     \<Rightarrow> (fault + 32 word \<times> mmc_command \<times> world) option"
where
  "sdhci_send_command s k e a w cmd =
     (if data_present cmd \<noteq> 0 \<and> data_ptr (data cmd) = 0 then Some (Inl Assert_failed)
      else if trans_mode cmd = SDHCI_READ_MODE s
              \<and> \<not> IS_CACHE_LINE_ALIGNED s (data_ptr (data cmd)) then Some (Inl Assert_failed)
      else
        (case lines_free_wait s w 0 of
           (False, w1) \<Rightarrow> Some (Inr (1, cmd, w1))
         | (True, w1) \<Rightarrow>
             (case resp_type_sel s k (resp_type cmd) of
                None \<Rightarrow> Some (Inr (1, cmd, dprintf w1 ''Invalid response type for the command''))
              | Some rt \<Rightarrow>
                  (let flags = push_bit (SDHCI_CMD_RESP_TYPE_SEL_BIT s) rt
                         OR push_bit (SDHCI_CMD_DATA_PRESENT_BIT s) (ucast (data_present cmd))
                         OR push_bit (SDHCI_CMD_CMD_TYPE_BIT s) (ucast (cmd_type cmd));
                       w2 = REG_WRITE8 w1 (SDHCI_CMD_TIMEOUT s) SDHCI_TIMEOUT_REG
                   in case (if data_present cmd \<noteq> 0 then sdhci_adma_transfer s a w2 cmd
                            else Inr (\<lparr>sg_ptr = 0, sg_entries = []\<rparr>, w2)) of
                        Inl f \<Rightarrow> Some (Inl f)
                      | Inr (sg_list, w3) \<Rightarrow>
                          (case sdhci_cmd_complete k e
                                  (REG_WRITE16
                                     (REG_WRITE32 w3 (argument cmd) SDHCI_ARGUMENT_REG)
                                     (SDHCI_PREP_CMD s (cmd_index cmd) flags) SDHCI_CMD_REG)
                                  cmd of
                             None \<Rightarrow> None
                           | Some (r, cmd1, w4) \<Rightarrow>
                               if r \<noteq> 0 then Some (Inr (1, cmd1, w4))
                               else Some (Inr (0, cmd1, send_command_finish s w4 cmd1 sg_list)))))))"

section \<open>Instances for concrete runs\<close>

text \<open>
  Where a statement is evaluated on a concrete run, the constants take the values below:
  the register layouts are those of the SD Host Controller Standard Specification,
  version 3.00 (clock control with its ten-bit divider of at most 2046, the interrupt
  status bits, software reset, the ADMA2 attribute bits), and the driver's own constants
  (retry bounds, response tags, block size) are fixed for the examples. No theorem that
  is stated for all constants depends on them.
\<close>

definition sd3_clk_defs :: clk_defs where
  "sd3_clk_defs =
     \<lparr>SDHCI_CLK_MAX_DIV = 2046, SDHCI_SDCLK_FREQ_MASK = 0xFF, SDHCI_SDCLK_FREQ_SEL = 8,
      SDHC_SDCLK_UP_BIT_MASK = 0x300, SDHCI_SDCLK_UP_BIT_SEL = 6, SDHCI_INT_CLK_EN = 1,
      SDHCI_CLK_STABLE = 2, SDHCI_CLK_EN = 4\<rparr>"

definition host_200mhz :: sdhci_host where
  "host_200mhz = \<lparr>caps = \<lparr>base_clk_rate = 200000000\<rparr>, cur_clk_rate = 400000\<rparr>"

text \<open>A world in which nothing has happened yet, on a controller whose registers read
  as \<open>f\<close> says; \<^verbatim>\<open>memalign\<close> returns the address \<open>0x8000\<close>.\<close>

definition boot_world :: "(reg \<Rightarrow> nat \<Rightarrow> 32 word) \<Rightarrow> world" where
  "boot_world f = \<lparr>reg_in = f, nreads = 0, alloc_in = (\<lambda>k. 0x8000), nallocs = 0, events = []\<rparr>"

definition mmc_width_defs :: width_defs where
  "mmc_width_defs =
     \<lparr>DATA_BUS_WIDTH_8BIT = 2, DATA_BUS_WIDTH_4BIT = 1, DATA_BUS_WIDTH_1BIT = 0,
      SDHCI_BUS_WITDH_8BIT = 0x20, SDHCI_BUS_WITDH_4BIT = 0x02, SDHCI_BUS_WITDH_1BIT = 0\<rparr>"

definition sd3_err_defs :: err_defs where
  "sd3_err_defs =
     \<lparr>SDHCI_CMD_TIMEOUT_MASK = 0x0001, SDHCI_CMD_CRC_MASK = 0x0002,
      SDHCI_CMD_END_BIT_MASK = 0x0004, SDHCI_CMD_IDX_MASK = 0x0008,
      SDHCI_DAT_TIMEOUT_MASK = 0x0010, SDHCI_DAT_CRC_MASK = 0x0020,
      SDHCI_DAT_END_BIT_MASK = 0x0040, SDHCI_CUR_LIM_MASK = 0x0080,
      SDHCI_AUTO_CMD12_MASK = 0x0100, SDHCI_ADMA_MASK = 0x0200\<rparr>"

definition sd3_cmd_defs :: cmd_defs where
  "sd3_cmd_defs =
     \<lparr>SDHCI_INT_STS_CMD_COMPLETE = 0x0001, SDHCI_INT_STS_TRANS_COMPLETE = 0x0002,
      SDHCI_ERR_INT_STAT_MASK = 0x8000, SDHCI_MAX_CMD_RETRY = 10000,
      SDHCI_MAX_TRANS_RETRY = 10000, SDHCI_CMD_RESP_R2 = 0x04, SDHCI_RESP_LSHIFT = 8,
      SDHCI_RESP_RSHIFT = 24, SDHCI_SWITCH_CMD = 6, SOFT_RESET_CMD = 0x02,
      SOFT_RESET_DATA = 0x04\<rparr>"

text \<open>Response registers that hold a fixed vector, all other registers reading 0.\<close>

definition r2_vector_regs :: "reg \<Rightarrow> nat \<Rightarrow> 32 word" where
  "r2_vector_regs r n =
     (if r = SDHCI_RESP_REG 0 then 0x11223344
      else if r = SDHCI_RESP_REG 4 then 0x55667788
      else if r = SDHCI_RESP_REG 8 then 0x99AABBCC
      else if r = SDHCI_RESP_REG 12 then 0xDDEEFF00
      else 0)"

text \<open>A controller that reports command and transfer complete together with the error
  interrupt, and a data CRC error in the error interrupt status; the command and data
  lines are free.\<close>

definition crc_error_regs :: "reg \<Rightarrow> nat \<Rightarrow> 32 word" where
  "crc_error_regs r n =
     (if r = SDHCI_NRML_INT_STS_REG then 0x8003
      else if r = SDHCI_ERR_INT_STS_REG then 0x0020
      else 0)"

text \<open>Three commands: a single-block read into a buffer at 0x100000, a command with a
  136-bit response, and a command without data.\<close>

definition read_cmd :: mmc_command where
  "read_cmd =
     \<lparr>cmd_index = 17, argument = 0, data_present = 1, cmd_type = 0, resp_type = 0x01,
      resp = (\<lambda>i. 0), trans_mode = 1,
      data = \<lparr>data_ptr = 0x100000, num_blocks = 1\<rparr>\<rparr>"

definition send_cid_cmd :: mmc_command where
  "send_cid_cmd =
     \<lparr>cmd_index = 2, argument = 0, data_present = 0, cmd_type = 0, resp_type = 0x04,
      resp = (\<lambda>i. 0), trans_mode = 0,
      data = \<lparr>data_ptr = 0, num_blocks = 0\<rparr>\<rparr>"

definition stop_cmd :: mmc_command where
  "stop_cmd =
     \<lparr>cmd_index = 13, argument = 0, data_present = 0, cmd_type = 0, resp_type = 0x01,
      resp = (\<lambda>i. 0), trans_mode = 0,
      data = \<lparr>data_ptr = 0, num_blocks = 0\<rparr>\<rparr>"

definition sd3_adma_defs :: adma_defs where
  "sd3_adma_defs =
     \<lparr>SDHCI_ADMA_DESC_LINE_SZ = 0x8000, SDHCI_ADMA_TRANS_VALID = 0x01,
      SDHCI_ADMA_TRANS_DATA = 0x20, SDHCI_ADMA_TRANS_END = 0x02\<rparr>"

definition sd3_send_defs :: send_defs where
  "sd3_send_defs =
     \<lparr>SDHCI_STATE_CMD_DAT_MASK = 0x0003,
      SDHCI_CMD_RESP_R1 = 0x01, SDHCI_CMD_RESP_R3 = 0x08, SDHCI_CMD_RESP_R6 = 0x40,
      SDHCI_CMD_RESP_R7 = 0x80, SDHCI_CMD_RESP_R1B = 0x02, SDHCI_CMD_RESP_NONE = 0,
      SDHCI_CMD_RESP_48 = 2, SDHCI_CMD_RESP_136 = 1, SDHCI_CMD_RESP_48_BUSY = 3,
      SDHCI_CMD_RESP_TYPE_SEL_BIT = 0, SDHCI_CMD_DATA_PRESENT_BIT = 5,
      SDHCI_CMD_CMD_TYPE_BIT = 6, SDHCI_CMD_TIMEOUT = 0x0F,
      SDHCI_PREP_CMD = (\<lambda>idx flags. ucast (push_bit 8 (ucast idx) OR flags)),
      IS_CACHE_LINE_ALIGNED = (\<lambda>p. p AND 0x3F = 0),
      SDHCI_MMC_BLK_SZ = 512, SDHCI_MMC_READ = 1, SDHCI_READ_MODE = 0x10,
      SDHCI_TRANS_MULTI = 0x20, SDHCI_AUTO_CMD23_EN = 0x08, SDHCI_BLK_CNT_EN = 0x02,
      SDHCI_DMA_EN = 0x01\<rparr>"

text \<open>The same attribute bits with a descriptor line of 65536 bytes, the longest span an
  ADMA2 descriptor can describe.\<close>

definition adma2_64k_defs :: adma_defs where
  "adma2_64k_defs =
     \<lparr>SDHCI_ADMA_DESC_LINE_SZ = 0x10000, SDHCI_ADMA_TRANS_VALID = 0x01,
      SDHCI_ADMA_TRANS_DATA = 0x20, SDHCI_ADMA_TRANS_END = 0x02\<rparr>"

section \<open>The clock: lemmas\<close>


lemma even_step:
  fixes d t :: "32 word"
  assumes "even (unat d)" "even (unat t)" "d < t"
  shows "unat (d + 2) = unat d + 2" and "d + 2 \<le> t" and "d + 2 \<noteq> 0" and "d < d + 2"
proof -
  have t: "unat t < 2 ^ 32" using unsigned_less [of t] by simp
  have lt: "unat d < unat t" using assms(3) by (simp add: word_less_nat_alt)
  have le: "unat d + 2 \<le> unat t" using lt assms(1,2) by presburger
  show u: "unat (d + 2) = unat d + 2"
    using unat_plus_if' [of d 2] le t by simp
  show "d + 2 \<le> t" using u le by (simp add: word_le_nat_alt)
  show "d + 2 \<noteq> 0" using u by (metis add_2_eq_Suc' nat.distinct(1) unat_0)
  show "d < d + 2" using u by (simp add: word_less_nat_alt)
qed

lemma scan_first_fit:
  assumes "even (unat d)" "even (unat t)" "d \<noteq> 0" "d \<le> t" "t < max_div"
    and "base div t \<le> clk"
    and "\<forall>d'. even (unat d') \<and> d \<le> d' \<and> d' < t \<longrightarrow> clk < base div d'"
  shows "clk_div_scan max_div base clk d f = Inr (t, base div t)"
  using assms
proof (induction max_div base clk d f rule: clk_div_scan.induct)
  case (1 max_div base clk d freq)
  show ?case
  proof (cases "d = t")
    case True
    then show ?thesis using 1(6,7,4)
      by (simp add: clk_div_scan.simps [of max_div base clk t])
  next
    case False
    then have lt: "d < t" using 1(5) by simp
    then have dm: "d < max_div" using 1(6) by simp
    have nfit: "\<not> base div d \<le> clk" using 1(8) 1(2) lt by (simp add: not_le)
    note st = even_step [OF 1(2) 1(3) lt]
    have "clk_div_scan max_div base clk (d + 2) (base div d) = Inr (t, base div t)"
    proof (rule 1(1) [OF dm 1(4) nfit _ 1(3) st(3) st(2) 1(6) 1(7)])
      show "even (unat (d + 2))" using st(1) 1(2) by simp
      show "\<forall>d'. even (unat d') \<and> d + 2 \<le> d' \<and> d' < t \<longrightarrow> clk < base div d'"
        using 1(8) st(4) by (meson less_imp_le order_trans)
    qed
    then show ?thesis using dm 1(4) nfit
      by (simp add: clk_div_scan.simps [of max_div base clk d])
  qed
qed


lemma clk_stable_wait_returns:
  "ucast (reg_in w SDHCI_CLK_CTRL_REG (nreads w + n)) AND SDHCI_CLK_STABLE k \<noteq> (0 :: 16 word)
   \<Longrightarrow> \<exists>m\<le>n. clk_stable_wait k w = Some (w\<lparr>nreads := Suc (nreads w + m)\<rparr>)"
proof (induction n arbitrary: w)
  case 0
  then show ?case
    by (subst clk_stable_wait.simps) (simp add: REG_READ16_def)
next
  case (Suc n)
  show ?case
  proof (cases "ucast (reg_in w SDHCI_CLK_CTRL_REG (nreads w)) AND SDHCI_CLK_STABLE k = (0 :: 16 word)")
    case False
    then have "clk_stable_wait k w = Some (w\<lparr>nreads := Suc (nreads w + 0)\<rparr>)"
      by (subst clk_stable_wait.simps) (simp add: REG_READ16_def)
    then show ?thesis by blast
  next
    case True
    let ?w = "w\<lparr>nreads := Suc (nreads w)\<rparr>"
    have "ucast (reg_in ?w SDHCI_CLK_CTRL_REG (nreads ?w + n)) AND SDHCI_CLK_STABLE k \<noteq> (0 :: 16 word)"
      using Suc.prems by simp
    from Suc.IH [OF this] obtain m where m: "m \<le> n"
      "clk_stable_wait k ?w = Some (?w\<lparr>nreads := Suc (nreads ?w + m)\<rparr>)" by blast
    have "clk_stable_wait k w = clk_stable_wait k ?w"
      using True by (subst clk_stable_wait.simps) (simp add: REG_READ16_def)
    then have "clk_stable_wait k w = Some (w\<lparr>nreads := Suc (nreads w + Suc m)\<rparr>)"
      using m(2) by simp
    then show ?thesis using m(1) by (metis Suc_le_mono)
  qed
qed

lemma clk_ctrl_returns:
  assumes "ucast (reg_in w SDHCI_CLK_CTRL_REG (nreads w + n)) AND SDHCI_CLK_STABLE k \<noteq> (0 :: 16 word)"
  shows "\<exists>w' v. clk_ctrl k host w d freq = Some (0, host\<lparr>cur_clk_rate := freq\<rparr>, w')
           \<and> events w' = events w @ [Write16 SDHCI_CLK_CTRL_REG (clk_ctrl_val k d),
                                      Write16 SDHCI_CLK_CTRL_REG (v OR SDHCI_CLK_EN k)]"
proof -
  let ?w1 = "REG_WRITE16 w (clk_ctrl_val k d) SDHCI_CLK_CTRL_REG"
  have "ucast (reg_in ?w1 SDHCI_CLK_CTRL_REG (nreads ?w1 + n)) AND SDHCI_CLK_STABLE k \<noteq> (0 :: 16 word)"
    using assms by (simp add: REG_WRITE16_def emit_def)
  from clk_stable_wait_returns [OF this] obtain m where
    m: "clk_stable_wait k ?w1 = Some (?w1\<lparr>nreads := Suc (nreads ?w1 + m)\<rparr>)" by blast
  show ?thesis
    unfolding clk_ctrl_def m by (simp add: REG_READ16_def REG_WRITE16_def emit_def) blast
qed


lemma small_even_divs:
  fixes d' :: "32 word"
  assumes "even (unat d')" "2 \<le> d'" "d' < 6"
  shows "d' = 2 \<or> d' = 4"
proof -
  have "2 \<le> unat d'" "unat d' < 6" using assms(2,3) by (simp_all add: word_le_nat_alt word_less_nat_alt)
  then have "unat d' = 2 \<or> unat d' = 4" using assms(1) by presburger
  then show ?thesis by (simp add: word_unat_eq_iff)
qed



section \<open>The clock: claims\<close>

text \<open>
  Claim C5. A request above the base clock rate of the capability record fails: the call
  returns 1 after the message that the frequency is not supported, writes no register
  (the message is the only event) and returns the host as it was, its recorded clock
  rate included.
\<close>

theorem clk_supply_above_base:
  assumes "base_clk_rate (caps host) < clk"
  shows "sdhci_clk_supply k host w clk =
           Some (Inr (1, host, dprintf w ''Error: Requested clk freq is more than supported''))
         \<and> filter is_write (events (dprintf w ''Error: Requested clk freq is more than supported''))
             = filter is_write (events w)"
  using assms by (simp add: sdhci_clk_supply_def dprintf_def emit_def)

text \<open>C5 at a request of 200000001 Hz on a host with a base rate of 200 MHz.\<close>

theorem clk_supply_above_base_witness:
  "sdhci_clk_supply sd3_clk_defs host_200mhz (boot_world (\<lambda>r n. 0)) 200000001 =
     Some (Inr (1, host_200mhz,
       boot_world (\<lambda>r n. 0)\<lparr>events := [Dprintf ''Error: Requested clk freq is more than supported'']\<rparr>))"
  using clk_supply_above_base [of host_200mhz 200000001 sd3_clk_defs "boot_world (\<lambda>r n. 0)"]
  by (simp add: host_200mhz_def boot_world_def dprintf_def emit_def)

text \<open>
  Claim C7. For a request below the base rate, let \<open>d\<close> be an even divisor from 2 on,
  below \<^verbatim>\<open>SDHCI_CLK_MAX_DIV\<close>, with \<open>base / d \<le> clk\<close>, such that no smaller even
  divisor from 2 on has that property. Then the scan stops at \<open>d\<close>: the first fit in
  ascending order, whatever rate would be closest. Once the controller reports a stable
  clock, the call returns 0, has programmed the clock register from \<open>d / 2\<close> and has
  recorded the rate \<open>base / d\<close>.
\<close>

theorem clk_supply_first_fit:
  assumes "clk < base_clk_rate (caps host)"
    and "even (unat d)" and "2 \<le> d" and "d < SDHCI_CLK_MAX_DIV k"
    and "base_clk_rate (caps host) div d \<le> clk"
    and "\<forall>d'. even (unat d') \<and> 2 \<le> d' \<and> d' < d \<longrightarrow> clk < base_clk_rate (caps host) div d'"
    and "ucast (reg_in w SDHCI_CLK_CTRL_REG (nreads w + n)) AND SDHCI_CLK_STABLE k \<noteq> (0 :: 16 word)"
  shows "clk_div_scan (SDHCI_CLK_MAX_DIV k) (base_clk_rate (caps host)) clk 2 0
           = Inr (d, base_clk_rate (caps host) div d)
         \<and> (\<exists>w' v. sdhci_clk_supply k host w clk =
               Some (Inr (0, host\<lparr>cur_clk_rate := base_clk_rate (caps host) div d\<rparr>, w'))
             \<and> events w' = events w @
                 [Write16 SDHCI_CLK_CTRL_REG (clk_ctrl_val k (drop_bit 1 d)),
                  Write16 SDHCI_CLK_CTRL_REG (v OR SDHCI_CLK_EN k)])"
proof -
  let ?base = "base_clk_rate (caps host)"
  have scan: "clk_div_scan (SDHCI_CLK_MAX_DIV k) ?base clk 2 0 = Inr (d, ?base div d)"
    by (rule scan_first_fit [OF _ assms(2) _ assms(3) assms(4) assms(5) assms(6)]) simp_all
  have ne: "clk \<noteq> ?base" using assms(1) by simp
  have sel: "clk_div_select k ?base clk = Inr (drop_bit 1 d, ?base div d)"
    using ne scan by (simp add: clk_div_select_def del: clk_div_scan.simps)
  from clk_ctrl_returns [OF assms(7), of host "drop_bit 1 d" "?base div d"]
  show ?thesis using assms(1) scan sel by (auto simp: sdhci_clk_supply_def simp del: clk_div_scan.simps)
qed

text \<open>C7 at 45 MHz on a 200 MHz host: divisors 2 and 4 give 100 and 50 MHz, the scan
  stops at 6 with 33333333 Hz, although 50 MHz is the closer rate.\<close>

theorem clk_supply_first_fit_witness:
  "clk_div_scan (SDHCI_CLK_MAX_DIV sd3_clk_defs) 200000000 45000000 2 0 = Inr (6, 33333333)
   \<and> (\<exists>w' v. sdhci_clk_supply sd3_clk_defs host_200mhz (boot_world (\<lambda>r n. 2)) 45000000 =
           Some (Inr (0, host_200mhz\<lparr>cur_clk_rate := 33333333\<rparr>, w'))
         \<and> events w' = [Write16 SDHCI_CLK_CTRL_REG 0x301, Write16 SDHCI_CLK_CTRL_REG (v OR 4)])"
proof -
  have h: "\<forall>d'::32 word. even (unat d') \<and> 2 \<le> d' \<and> d' < 6
             \<longrightarrow> 45000000 < base_clk_rate (caps host_200mhz) div d'"
  proof (intro allI impI)
    fix d' :: "32 word"
    assume "even (unat d') \<and> 2 \<le> d' \<and> d' < 6"
    then have "d' = 2 \<or> d' = 4" using small_even_divs by blast
    then show "45000000 < base_clk_rate (caps host_200mhz) div d'"
      by (auto simp: host_200mhz_def)
  qed
  have s: "ucast (reg_in (boot_world (\<lambda>r n. 2)) SDHCI_CLK_CTRL_REG (nreads (boot_world (\<lambda>r n. 2)) + 0))
             AND SDHCI_CLK_STABLE sd3_clk_defs \<noteq> (0 :: 16 word)"
    by (simp add: boot_world_def sd3_clk_defs_def)
  show ?thesis
    using clk_supply_first_fit [of 45000000 host_200mhz 6 sd3_clk_defs "boot_world (\<lambda>r n. 2)" 0, OF _ _ _ _ _ h s]
    by (simp add: host_200mhz_def sd3_clk_defs_def boot_world_def clk_ctrl_val_def)
qed







section \<open>Bus width: claims\<close>

lemma low_byte_or:
  fixes r :: "8 word" and p :: "16 word"
  shows "(ucast ((ucast r :: 16 word) OR p) :: 8 word) = r OR ucast p"
  by (rule bit_word_eqI) (auto simp: bit_simps)

text \<open>
  Claim C9. With the three width tags distinct (they are the labels of one \<^verbatim>\<open>switch\<close>):
  for a recognised width the call returns 0 and its one write stores the value read from
  the host control register or-ed with the low byte of the pattern of that width, so no
  bit that was set is cleared; for any other width the call returns 1 and its only event
  is the message, so no register is written.
\<close>

theorem set_bus_width_claim:
  assumes "distinct [DATA_BUS_WIDTH_8BIT k, DATA_BUS_WIDTH_4BIT k, DATA_BUS_WIDTH_1BIT k]"
  shows
    "(width = DATA_BUS_WIDTH_8BIT k \<longrightarrow>
        sdhci_set_bus_width k w width =
          (0, w\<lparr>nreads := Suc (nreads w),
                 events := events w @ [Write8 SDHCI_HOST_CTRL1_REG
                   (ucast (reg_in w SDHCI_HOST_CTRL1_REG (nreads w)) OR ucast (SDHCI_BUS_WITDH_8BIT k))]\<rparr>))
     \<and> (width = DATA_BUS_WIDTH_4BIT k \<longrightarrow>
        sdhci_set_bus_width k w width =
          (0, w\<lparr>nreads := Suc (nreads w),
                 events := events w @ [Write8 SDHCI_HOST_CTRL1_REG
                   (ucast (reg_in w SDHCI_HOST_CTRL1_REG (nreads w)) OR ucast (SDHCI_BUS_WITDH_4BIT k))]\<rparr>))
     \<and> (width = DATA_BUS_WIDTH_1BIT k \<longrightarrow>
        sdhci_set_bus_width k w width =
          (0, w\<lparr>nreads := Suc (nreads w),
                 events := events w @ [Write8 SDHCI_HOST_CTRL1_REG
                   (ucast (reg_in w SDHCI_HOST_CTRL1_REG (nreads w)) OR ucast (SDHCI_BUS_WITDH_1BIT k))]\<rparr>))
     \<and> (width \<noteq> DATA_BUS_WIDTH_8BIT k \<and> width \<noteq> DATA_BUS_WIDTH_4BIT k
          \<and> width \<noteq> DATA_BUS_WIDTH_1BIT k \<longrightarrow>
        sdhci_set_bus_width k w width =
          (1, w\<lparr>nreads := Suc (nreads w),
                 events := events w @ [Dprintf ''Bus width is invalid: %u'']\<rparr>)
        \<and> filter is_write (events (snd (sdhci_set_bus_width k w width))) = filter is_write (events w))"
  using assms
  by (auto simp: sdhci_set_bus_width_def bus_width_pattern_def REG_READ8_def REG_WRITE8_def
      dprintf_def emit_def low_byte_or)

text \<open>C9 on a register that reads 0x10: the 4-bit width writes 0x12, the unknown width 7
  writes nothing.\<close>

theorem set_bus_width_claim_witness:
  "sdhci_set_bus_width mmc_width_defs (boot_world (\<lambda>r n. 0x10)) 1 =
     (0, boot_world (\<lambda>r n. 0x10)\<lparr>nreads := 1, events := [Write8 SDHCI_HOST_CTRL1_REG 0x12]\<rparr>)
   \<and> sdhci_set_bus_width mmc_width_defs (boot_world (\<lambda>r n. 0x10)) 7 =
     (1, boot_world (\<lambda>r n. 0x10)\<lparr>nreads := 1, events := [Dprintf ''Bus width is invalid: %u'']\<rparr>)"
  using set_bus_width_claim [of mmc_width_defs 1 "boot_world (\<lambda>r n. 0x10)"]
    set_bus_width_claim [of mmc_width_defs 7 "boot_world (\<lambda>r n. 0x10)"]
  by (simp add: mmc_width_defs_def boot_world_def)

section \<open>Command completion: lemmas\<close>

lemma retry_succ:
  fixes retry :: "16 word"
  assumes "unat retry < n" "n < 65536"
  shows "unat (retry + 1) = Suc (unat retry)"
  using assms unat_plus_if' [of retry 1] by simp

lemma cmd_complete_wait_exhausts:
  assumes never: "\<And>t. ucast (ucast (f SDHCI_NRML_INT_STS_REG t) :: 16 word)
                         AND SDHCI_INT_STS_CMD_COMPLETE k \<noteq> SDHCI_INT_STS_CMD_COMPLETE k"
    and bound: "SDHCI_MAX_CMD_RETRY k < 65536"
  shows "reg_in w = f \<Longrightarrow> unat retry + Suc m = SDHCI_MAX_CMD_RETRY k \<Longrightarrow>
         cmd_complete_wait k w retry =
           Some (False, w\<lparr>nreads := nreads w + Suc m,
                           events := events w @ replicate (Suc m) (Udelay 500)
                                       @ [Dprintf ''Error: Command never completed'']\<rparr>)"
proof (induction m arbitrary: w retry)
  case 0
  have u: "unat (retry + 1) = SDHCI_MAX_CMD_RETRY k"
    using retry_succ [of retry "SDHCI_MAX_CMD_RETRY k"] 0(2) bound by simp
  show ?case
    using never [of "nreads w"] 0(1) u
    by (subst cmd_complete_wait.simps)
       (simp add: REG_READ16_def udelay_def dprintf_def emit_def)
next
  case (Suc m)
  have u: "unat (retry + 1) = Suc (unat retry)"
    using retry_succ [of retry "SDHCI_MAX_CMD_RETRY k"] Suc(3) bound by simp
  then have ne: "unat (retry + 1) \<noteq> SDHCI_MAX_CMD_RETRY k" using Suc(3) by simp
  let ?w = "udelay (snd (REG_READ16 w SDHCI_NRML_INT_STS_REG)) 500"
  have step: "cmd_complete_wait k w retry = cmd_complete_wait k ?w (retry + 1)"
    using never [of "nreads w"] Suc(2) ne
    by (subst cmd_complete_wait.simps) (simp add: REG_READ16_def)
  have "reg_in ?w = f" using Suc(2) by (simp add: udelay_def emit_def REG_READ16_def)
  moreover have "unat (retry + 1) + Suc m = SDHCI_MAX_CMD_RETRY k" using u Suc(3) by simp
  ultimately have "cmd_complete_wait k ?w (retry + 1) =
           Some (False, ?w\<lparr>nreads := nreads ?w + Suc m,
                           events := events ?w @ replicate (Suc m) (Udelay 500)
                                       @ [Dprintf ''Error: Command never completed'']\<rparr>)"
    by (rule Suc.IH)
  then show ?case unfolding step
    by (simp add: udelay_def emit_def REG_READ16_def replicate_append_same)
qed

lemma cmd_complete_wait_now:
  "ucast (ucast (reg_in w SDHCI_NRML_INT_STS_REG (nreads w)) :: 16 word)
     AND SDHCI_INT_STS_CMD_COMPLETE k = SDHCI_INT_STS_CMD_COMPLETE k
   \<Longrightarrow> cmd_complete_wait k w retry = Some (True, w\<lparr>nreads := Suc (nreads w)\<rparr>)"
  by (subst cmd_complete_wait.simps) (simp add: REG_READ16_def)

lemma trans_complete_wait_now:
  "(ucast (ucast (reg_in w SDHCI_NRML_INT_STS_REG (nreads w)) :: 16 word)
     AND SDHCI_INT_STS_TRANS_COMPLETE k) AND SDHCI_INT_STS_TRANS_COMPLETE k \<noteq> 0
   \<Longrightarrow> trans_complete_wait k w retry = Some (True, w\<lparr>nreads := Suc (nreads w)\<rparr>)"
  by (subst trans_complete_wait.simps) (simp add: REG_READ16_def)

lemma cmd_complete_wait_filter':
  assumes q: "\<And>n. \<not> q (Udelay n)" "\<And>m. \<not> q (Dprintf m)"
    and a: "cmd_complete_wait k w retry = Some y"
  shows "filter q (events (snd y)) = filter q (events w)"
  apply (rule cmd_complete_wait.raw_induct
      [where P = "\<lambda>k w retry y. filter q (events (snd y)) = filter q (events w)", OF _ a])
  subgoal premises p for wait k w retry y
    using p(2) p(1) [of k "udelay (snd (REG_READ16 w SDHCI_NRML_INT_STS_REG)) 500" "retry + 1" y] q
    by (auto simp: REG_READ16_def udelay_def dprintf_def emit_def split: if_splits)
  done

lemma cmd_complete_wait_filter:
  "(\<And>n. \<not> q (Udelay n)) \<Longrightarrow> (\<And>m. \<not> q (Dprintf m)) \<Longrightarrow>
   cmd_complete_wait k w retry = Some (b, w') \<Longrightarrow> filter q (events w') = filter q (events w)"
  using cmd_complete_wait_filter' [of q k w retry "(b, w')"] by simp

lemma trans_complete_wait_filter':
  assumes q: "\<And>n. \<not> q (Udelay n)" "\<And>m. \<not> q (Dprintf m)"
    and a: "trans_complete_wait k w retry = Some y"
  shows "filter q (events (snd y)) = filter q (events w)"
  apply (rule trans_complete_wait.raw_induct
      [where P = "\<lambda>k w retry y. filter q (events (snd y)) = filter q (events w)", OF _ a])
  subgoal premises p for wait k w retry y
    using p(2) p(1) [of k "udelay (snd (REG_READ16 w SDHCI_NRML_INT_STS_REG)) 1000" "retry + 1" y] q
    by (auto simp: REG_READ16_def udelay_def dprintf_def emit_def split: if_splits)
  done

lemma trans_complete_wait_filter:
  "(\<And>n. \<not> q (Udelay n)) \<Longrightarrow> (\<And>m. \<not> q (Dprintf m)) \<Longrightarrow>
   trans_complete_wait k w retry = Some (b, w') \<Longrightarrow> filter q (events w') = filter q (events w)"
  using trans_complete_wait_filter' [of q k w retry "(b, w')"] by simp

lemma resp_r2_copy_events: "events (snd (resp_r2_copy k i w rsp)) = events w"
proof (induction k i w rsp rule: resp_r2_copy.induct)
  case (1 k i w rsp)
  then show ?case
    by (subst resp_r2_copy.simps) (simp add: REG_READ32_def fun_upd_def)
qed

lemma copy_response_events: "events (snd (copy_response k w cmd)) = events w"
  using resp_r2_copy_events [of k 0 w "resp cmd"]
  by (cases "resp_r2_copy k 0 w (resp cmd)") (simp add: copy_response_def REG_READ32_def)

lemma resp_r2_copy_stable:
  assumes "\<And>t. reg_in w (SDHCI_RESP_REG 0) t = r0"
    and "\<And>t. reg_in w (SDHCI_RESP_REG 4) t = r1"
    and "\<And>t. reg_in w (SDHCI_RESP_REG 8) t = r2"
    and "\<And>t. reg_in w (SDHCI_RESP_REG 12) t = r3"
  shows "fst (resp_r2_copy k 0 w rsp) 0 = push_bit (SDHCI_RESP_LSHIFT k) r0"
    and "fst (resp_r2_copy k 0 w rsp) (Suc 0) =
           push_bit (SDHCI_RESP_LSHIFT k) r1 OR drop_bit (SDHCI_RESP_RSHIFT k) r0"
    and "fst (resp_r2_copy k 0 w rsp) 2 =
           push_bit (SDHCI_RESP_LSHIFT k) r2 OR drop_bit (SDHCI_RESP_RSHIFT k) r1"
    and "fst (resp_r2_copy k 0 w rsp) 3 =
           push_bit (SDHCI_RESP_LSHIFT k) r3 OR drop_bit (SDHCI_RESP_RSHIFT k) r2"
  using assms by (simp_all add: resp_r2_copy.simps REG_READ32_def)

lemma cmd_err_status_filter:
  "(\<And>m. \<not> q (Dprintf m)) \<Longrightarrow>
   filter q (events (snd (sdhci_cmd_err_status e w))) = filter q (events w)"
  by (simp add: sdhci_cmd_err_status_def REG_READ16_def dprintf_def emit_def)

lemma cmd_complete_err_filter:
  assumes "\<And>m. \<not> q (Dprintf m)"
    and "cmd_complete_err k e w cmd = (r, cmd', w')"
    and "r \<noteq> 0 \<or> (\<forall>v. \<not> q (Write8 SDHCI_RESET_REG v))"
  shows "filter q (events w') = filter q (events w)"
  using cmd_err_status_filter [of q e "w\<lparr>nreads := Suc (nreads w)\<rparr>"] assms
  by (auto simp: cmd_complete_err_def REG_READ16_def REG_WRITE8_def dprintf_def emit_def
      split: if_splits prod.splits)

lemma cmd_complete_filter:
  assumes q: "\<And>n. \<not> q (Udelay n)" "\<And>m. \<not> q (Dprintf m)"
      "\<And>v. \<not> q (Write16 SDHCI_NRML_INT_STS_REG v)"
    and run: "sdhci_cmd_complete k e w cmd = Some (r, cmd', w')"
    and r: "r \<noteq> 0 \<or> (\<forall>v. \<not> q (Write8 SDHCI_RESET_REG v))"
  shows "filter q (events w') = filter q (events w)"
proof (cases "cmd_complete_wait k w 0")
  case None
  then show ?thesis using run by (simp add: sdhci_cmd_complete_def)
next
  case (Some a)
  obtain b w1 where a: "a = (b, w1)" by (cases a)
  have r1: "filter q (events w1) = filter q (events w)"
    using cmd_complete_wait_filter [OF q(1,2)] Some a by blast
  show ?thesis
  proof (cases b)
    case False
    then have "cmd_complete_err k e w1 cmd = (r, cmd', w')"
      using run Some a by (simp add: sdhci_cmd_complete_def)
    from cmd_complete_err_filter [OF q(2) this r] r1 show ?thesis by simp
  next
    case True
    let ?w2 = "REG_WRITE16 w1 (ucast (SDHCI_INT_STS_CMD_COMPLETE k)) SDHCI_NRML_INT_STS_REG"
    obtain cmd1 w3 where c: "copy_response k ?w2 cmd = (cmd1, w3)"
      by (cases "copy_response k ?w2 cmd")
    have r3: "filter q (events w3) = filter q (events w)"
      using copy_response_events [of k ?w2 cmd] c r1 q(3) by (simp add: REG_WRITE16_def emit_def)
    show ?thesis
    proof (cases "data_present cmd1 \<noteq> 0 \<or> cmd_index cmd1 = SDHCI_SWITCH_CMD k")
      case False
      then have "cmd_complete_err k e w3 cmd1 = (r, cmd', w')"
        using run Some a True c by (simp add: sdhci_cmd_complete_def)
      from cmd_complete_err_filter [OF q(2) this r] r3 show ?thesis by simp
    next
      case dp: True
      show ?thesis
      proof (cases "trans_complete_wait k w3 0")
        case None
        then show ?thesis using run Some a True c dp by (simp add: sdhci_cmd_complete_def)
      next
        case (Some a')
        obtain b' w4 where a': "a' = (b', w4)" by (cases a')
        have r4: "filter q (events w4) = filter q (events w)"
          using trans_complete_wait_filter [OF q(1,2)] Some a' r3 by metis
        show ?thesis
        proof (cases b')
          case False
          then have "cmd_complete_err k e w4 cmd1 = (r, cmd', w')"
            using run \<open>cmd_complete_wait k w 0 = Some a\<close> a True c dp Some a'
            by (simp add: sdhci_cmd_complete_def)
          from cmd_complete_err_filter [OF q(2) this r] r4 show ?thesis by simp
        next
          case t: True
          let ?w5 = "REG_WRITE16 w4 (ucast (SDHCI_INT_STS_TRANS_COMPLETE k)) SDHCI_NRML_INT_STS_REG"
          have "cmd_complete_err k e ?w5 cmd1 = (r, cmd', w')"
            using run \<open>cmd_complete_wait k w 0 = Some a\<close> a True c dp Some a' t
            by (simp add: sdhci_cmd_complete_def)
          from cmd_complete_err_filter [OF q(2) this r] r4 q(3) show ?thesis
            by (simp add: REG_WRITE16_def emit_def)
        qed
      qed
    qed
  qed
qed

lemma cmd_complete_crc_error_run:
  "reg_in w = crc_error_regs \<Longrightarrow> data_present cmd \<noteq> 0 \<Longrightarrow> resp_type cmd \<noteq> 0x04 \<Longrightarrow>
   sdhci_cmd_complete sd3_cmd_defs sd3_err_defs w cmd =
     Some (1, cmd\<lparr>resp := (resp cmd)(0 := 0)\<rparr>,
       w\<lparr>nreads := nreads w + 5,
         events := events w @
           [Write16 SDHCI_NRML_INT_STS_REG 1, Write16 SDHCI_NRML_INT_STS_REG 2,
            Dprintf ''Error: DATA CRC error'',
            Dprintf ''Error: Command completed with errors'']\<rparr>)"
  by (simp add: sdhci_cmd_complete_def cmd_complete_wait_now trans_complete_wait_now
      copy_response_def cmd_complete_err_def sdhci_cmd_err_status_def
      sd3_cmd_defs_def sd3_err_defs_def crc_error_regs_def
      REG_READ16_def REG_READ32_def REG_WRITE16_def dprintf_def emit_def)


section \<open>Command completion: claims\<close>

text \<open>
  Claim C6, as the code has it. For a 136-bit response, with the shifts 8 and 24 and
  response registers that hold \<open>r0\<close> to \<open>r3\<close> while they are read (each of the first
  three is read twice): every word is the register shifted left by 8 bits, the first one
  included, so its low byte is 0 and the low byte of \<open>r0\<close> sits in bits 8 to 15; each
  later word has the top 8 bits of the register before it or-ed into its low byte.
\<close>

theorem r2_response_words:
  assumes "resp_type cmd = SDHCI_CMD_RESP_R2 k"
    and "SDHCI_RESP_LSHIFT k = 8" and "SDHCI_RESP_RSHIFT k = 24"
    and "\<forall>t. reg_in w (SDHCI_RESP_REG 0) t = r0"
    and "\<forall>t. reg_in w (SDHCI_RESP_REG 4) t = r1"
    and "\<forall>t. reg_in w (SDHCI_RESP_REG 8) t = r2"
    and "\<forall>t. reg_in w (SDHCI_RESP_REG 12) t = r3"
  shows "resp (fst (copy_response k w cmd)) 0 = push_bit 8 r0
       \<and> resp (fst (copy_response k w cmd)) 1 = push_bit 8 r1 OR drop_bit 24 r0
       \<and> resp (fst (copy_response k w cmd)) 2 = push_bit 8 r2 OR drop_bit 24 r1
       \<and> resp (fst (copy_response k w cmd)) 3 = push_bit 8 r3 OR drop_bit 24 r2"
proof -
  have c: "resp (fst (copy_response k w cmd)) = fst (resp_r2_copy k 0 w (resp cmd))"
    using assms(1) by (simp add: copy_response_def split: prod.split)
  show ?thesis
    unfolding c
    using resp_r2_copy_stable [of w r0 r1 r2 r3 k "resp cmd"] assms(2-7) by simp
qed

text \<open>C6, amended, on the vector 0x11223344, 0x55667788, 0x99AABBCC, 0xDDEEFF00.\<close>

theorem r2_response_words_witness:
  "resp (fst (copy_response sd3_cmd_defs (boot_world r2_vector_regs) send_cid_cmd)) 0 = 0x22334400
   \<and> resp (fst (copy_response sd3_cmd_defs (boot_world r2_vector_regs) send_cid_cmd)) 1 = 0x66778811
   \<and> resp (fst (copy_response sd3_cmd_defs (boot_world r2_vector_regs) send_cid_cmd)) 2 = 0xAABBCC55
   \<and> resp (fst (copy_response sd3_cmd_defs (boot_world r2_vector_regs) send_cid_cmd)) 3 = 0xEEFF0099"
  using r2_response_words [of send_cid_cmd sd3_cmd_defs "boot_world r2_vector_regs"
      "0x11223344" "0x55667788" "0x99AABBCC" "0xDDEEFF00"]
  by (simp add: sd3_cmd_defs_def send_cid_cmd_def boot_world_def r2_vector_regs_def)

text \<open>
  Claim C6 as stated has the first register low-aligned with its low byte unmodified; on
  that vector the first word is 0x22334400 and not 0x11223344.
\<close>

theorem r2_response_word0_counterexample:
  "resp (fst (copy_response sd3_cmd_defs (boot_world r2_vector_regs) send_cid_cmd)) 0 \<noteq> 0x11223344
   \<and> resp (fst (copy_response sd3_cmd_defs (boot_world r2_vector_regs) send_cid_cmd)) 0 = 0x22334400"
  by (simp add: copy_response_def resp_r2_copy.simps REG_READ32_def sd3_cmd_defs_def
      send_cid_cmd_def boot_world_def r2_vector_regs_def)

text \<open>
  Claim C2. Let the command complete bit never show in the normal interrupt status, nor
  any bit of the error interrupt mask, and let the retry bound be positive and fit the
  16-bit counter. Then the poll runs out after that many delays of 500 microseconds and
  leaves the message that the command never completed, and the status register is never
  written, so the bit is not cleared. But the call then returns 0, the value of success
  (after the line reset, for a command with data): the failure the claim asks for is
  not returned.
\<close>

theorem cmd_timeout_returns_success:
  assumes "\<forall>t. ucast (ucast (reg_in w SDHCI_NRML_INT_STS_REG t) :: 16 word)
                 AND SDHCI_INT_STS_CMD_COMPLETE k \<noteq> SDHCI_INT_STS_CMD_COMPLETE k"
    and "\<forall>t. ucast (ucast (reg_in w SDHCI_NRML_INT_STS_REG t) :: 16 word)
                 AND SDHCI_ERR_INT_STAT_MASK k = 0"
    and "0 < SDHCI_MAX_CMD_RETRY k" and "SDHCI_MAX_CMD_RETRY k < 65536"
  shows "sdhci_cmd_complete k e w cmd =
           Some (0, cmd, w\<lparr>nreads := Suc (nreads w + SDHCI_MAX_CMD_RETRY k),
                            events := events w @ replicate (SDHCI_MAX_CMD_RETRY k) (Udelay 500)
                              @ [Dprintf ''Error: Command never completed'']
                              @ (if data_present cmd \<noteq> 0
                                 then [Write8 SDHCI_RESET_REG (SOFT_RESET_CMD k OR SOFT_RESET_DATA k)]
                                 else [])\<rparr>)"
proof -
  obtain m where m: "SDHCI_MAX_CMD_RETRY k = Suc m"
    using assms(3) by (cases "SDHCI_MAX_CMD_RETRY k") simp_all
  have "cmd_complete_wait k w 0 =
           Some (False, w\<lparr>nreads := nreads w + Suc m,
                           events := events w @ replicate (Suc m) (Udelay 500)
                                       @ [Dprintf ''Error: Command never completed'']\<rparr>)"
    by (rule cmd_complete_wait_exhausts [where f = "reg_in w"])
       (use assms(1,4) m in simp_all)
  then show ?thesis
    using assms(2) m
    by (simp add: sdhci_cmd_complete_def cmd_complete_err_def REG_READ16_def REG_WRITE8_def emit_def)
qed

text \<open>C2 on a controller whose registers all read 0, with a bound of 10000: ten thousand
  delays, the message, and the value 0.\<close>

theorem cmd_timeout_returns_success_witness:
  "sdhci_cmd_complete sd3_cmd_defs sd3_err_defs (boot_world (\<lambda>r n. 0)) stop_cmd =
     Some (0, stop_cmd,
       boot_world (\<lambda>r n. 0)\<lparr>nreads := 10001,
          events := replicate 10000 (Udelay 500) @ [Dprintf ''Error: Command never completed'']\<rparr>)"
  using cmd_timeout_returns_success [of "boot_world (\<lambda>r n. 0)" sd3_cmd_defs sd3_err_defs stop_cmd]
  by (simp add: sd3_cmd_defs_def boot_world_def stop_cmd_def)

text \<open>
  Claim C3. Whenever \<^verbatim>\<open>sdhci_cmd_complete\<close> returns a failure, it has written nothing
  to the software reset register: the only return of a non-zero value is the one of line
  461, which leaves before the reset of lines 466 and 467, for commands with data as
  well. The claim asks for the reset on that path too.
\<close>

theorem cmd_error_skips_line_reset:
  assumes "sdhci_cmd_complete k e w cmd = Some (r, cmd', w')" and "r \<noteq> 0"
  shows "filter (writes_reg SDHCI_RESET_REG) (events w')
           = filter (writes_reg SDHCI_RESET_REG) (events w)"
  by (rule cmd_complete_filter [OF _ _ _ assms(1)]) (use assms(2) in simp_all)

text \<open>C3 on a read command whose transfer ends with a data CRC error: the call returns 1
  and its events are the two status bits cleared and two messages, without a reset.\<close>

theorem cmd_error_skips_line_reset_witness:
  "sdhci_cmd_complete sd3_cmd_defs sd3_err_defs (boot_world crc_error_regs) read_cmd =
     Some (1, read_cmd\<lparr>resp := (resp read_cmd)(0 := 0)\<rparr>,
       boot_world crc_error_regs\<lparr>nreads := 5,
         events :=
           [Write16 SDHCI_NRML_INT_STS_REG 1, Write16 SDHCI_NRML_INT_STS_REG 2,
            Dprintf ''Error: DATA CRC error'',
            Dprintf ''Error: Command completed with errors'']\<rparr>)
   \<and> data_present read_cmd = 1
   \<and> filter (writes_reg SDHCI_RESET_REG)
        (events (boot_world crc_error_regs\<lparr>nreads := 5,
         events :=
           [Write16 SDHCI_NRML_INT_STS_REG 1, Write16 SDHCI_NRML_INT_STS_REG 2,
            Dprintf ''Error: DATA CRC error'',
            Dprintf ''Error: Command completed with errors'']\<rparr>)) = []"
proof -
  have run: "sdhci_cmd_complete sd3_cmd_defs sd3_err_defs (boot_world crc_error_regs) read_cmd =
     Some (1, read_cmd\<lparr>resp := (resp read_cmd)(0 := 0)\<rparr>,
       boot_world crc_error_regs\<lparr>nreads := 5,
         events :=
           [Write16 SDHCI_NRML_INT_STS_REG 1, Write16 SDHCI_NRML_INT_STS_REG 2,
            Dprintf ''Error: DATA CRC error'',
            Dprintf ''Error: Command completed with errors'']\<rparr>)"
    using cmd_complete_crc_error_run [of "boot_world crc_error_regs" read_cmd]
    by (simp add: boot_world_def read_cmd_def)
  from cmd_error_skips_line_reset [OF run] run show ?thesis
    by (simp add: boot_world_def read_cmd_def)
qed

section \<open>The descriptor table: lemmas\<close>

lemma sum_list_const_len:
  "list_all (\<lambda>e. f e = (c::nat)) xs \<Longrightarrow> sum_list (map f xs) = length xs * c"
  by (induction xs) simp_all

lemma sum_list_butlast_last:
  "xs \<noteq> [] \<Longrightarrow> sum_list (map f xs) = sum_list (map f (butlast xs)) + (f (last xs) :: nat)"
  by (induction xs) auto

lemma ceil_div_facts:
  fixes L S :: nat
  assumes "0 < S" "S < L"
  defines "n \<equiv> (if L mod S \<noteq> 0 then L div S + 1 else L div S)"
  shows "n = (L + S - 1) div S" and "2 \<le> n" and "(n - 1) * S < L" and "L - (n - 1) * S \<le> S"
proof -
  have q1: "1 \<le> L div S" using assms(1,2) by (simp add: Suc_leI div_greater_zero_iff less_imp_le)
  have split: "L = L div S * S + L mod S" by simp
  show "n = (L + S - 1) div S"
  proof (cases "L mod S = 0")
    case True
    then obtain q where q: "L = q * S" by (metis split add.right_neutral)
    have "(L + S - 1) div S = q"
      by (rule div_nat_eqI) (use q assms(1) in \<open>simp_all add: algebra_simps\<close>)
    then show ?thesis using True q assms(1) by (simp add: n_def)
  next
    case False
    define r where "r = L mod S"
    define q where "q = L div S"
    have r: "0 < r" "r < S" using False assms(1) by (simp_all add: r_def)
    have L: "L = q * S + r" using split by (simp add: q_def r_def)
    have "(L + S - 1) div S = q + 1"
      by (rule div_nat_eqI) (use L r in \<open>simp_all add: algebra_simps\<close>)
    then show ?thesis using False by (simp add: n_def q_def)
  qed
  show "2 \<le> n"
  proof (cases "L mod S = 0")
    case True
    then obtain q where q: "L = q * S" by (metis split add.right_neutral)
    then have "q \<noteq> 0" "q \<noteq> 1" using assms by auto
    then show ?thesis using True q assms(1) by (simp add: n_def)
  next
    case False
    then show ?thesis using q1 by (simp add: n_def)
  qed
  show "(n - 1) * S < L"
  proof (cases "L mod S = 0")
    case True
    then have "L div S * S = L" using split by simp
    moreover have "(L div S - 1) * S < L div S * S" using q1 assms(1) by simp
    ultimately show ?thesis using True by (simp add: n_def)
  next
    case False
    then have "L div S * S < L" by (metis split less_add_same_cancel1 neq0_conv)
    then show ?thesis using False by (simp add: n_def)
  qed
  show "L - (n - 1) * S \<le> S"
  proof (cases "L mod S = 0")
    case True
    then have e: "L div S * S = L" using split by simp
    have "(L div S - 1) * S = L - S" using q1 e by (simp add: diff_mult_distrib)
    then show ?thesis using True assms by (simp add: n_def)
  next
    case False
    have "L - L div S * S = L mod S" by (simp add: minus_div_mult_eq_mod)
    moreover have "L mod S < S" using assms(1) by simp
    ultimately show ?thesis using False by (simp add: n_def)
  qed
qed

lemma unat_succ32:
  fixes i m :: "32 word"
  assumes "i < m"
  shows "unat (i + 1) = Suc (unat i)"
proof -
  have "unat i < unat m" using assms by (simp add: word_less_nat_alt)
  moreover have "unat m < 2 ^ 32" using unsigned_less [of m] by simp
  ultimately show ?thesis using unat_plus_if' [of i 1] by simp
qed

lemma unat_ucast16:
  fixes x :: "32 word"
  assumes "unat x < 65536"
  shows "unat (ucast x :: 16 word) = unat x"
  using assms by (simp add: unsigned_ucast_eq take_bit_nat_eq_self)

lemma end_bit_kept:
  fixes a b c :: "16 word"
  shows "(a OR b OR c) AND c = c"
  by (rule bit_word_eqI) (auto simp: bit_simps)

lemma desc_fill_spec:
  assumes "length tbl = n" and "unat (sg_len - 1) = n - 1" and "0 < n"
  shows "unat i + d = n - 1 \<Longrightarrow> length tbl = n \<Longrightarrow>
         \<exists>tbl'. desc_fill k sg_len i tbl buf nb =
                  Inr (tbl', buf + of_nat d * SDHCI_ADMA_DESC_LINE_SZ k,
                       nb - of_nat d * SDHCI_ADMA_DESC_LINE_SZ k)
              \<and> length tbl' = n
              \<and> (\<forall>j<n. tbl' ! j =
                    (if unat i \<le> j \<and> j < n - 1
                     then full_desc k (buf + of_nat (j - unat i) * SDHCI_ADMA_DESC_LINE_SZ k)
                     else tbl ! j))"
proof (induction d arbitrary: i tbl buf nb)
  case 0
  then have "\<not> i < sg_len - 1" using assms(2) by (simp add: word_less_nat_alt)
  then show ?case using 0 by (subst desc_fill.simps) auto
next
  case (Suc d)
  let ?SZ = "SDHCI_ADMA_DESC_LINE_SZ k"
  have lt: "i < sg_len - 1" using Suc(2) assms(2) by (simp add: word_less_nat_alt)
  have ui: "unat (i + 1) = Suc (unat i)" by (rule unat_succ32 [OF lt])
  have inb: "unat i < length tbl" using Suc(2,3) by simp
  let ?tbl = "tbl[unat i := full_desc k buf]"
  have st: "sg_store tbl (unat i)
              \<lparr>tran_att = SDHCI_ADMA_TRANS_VALID k OR SDHCI_ADMA_TRANS_DATA k,
               len = ucast ?SZ, addr = buf\<rparr> = Inr ?tbl"
    using inb by (simp add: sg_store_def full_desc_def)
  have step: "desc_fill k sg_len i tbl buf nb =
                desc_fill k sg_len (i + 1) ?tbl (buf + ?SZ) (nb - ?SZ)"
    using lt st by (subst desc_fill.simps) simp
  have "unat (i + 1) + d = n - 1" using ui Suc(2) by simp
  moreover have "length ?tbl = n" using Suc(3) by simp
  ultimately obtain tbl' where
    r: "desc_fill k sg_len (i + 1) ?tbl (buf + ?SZ) (nb - ?SZ) =
          Inr (tbl', buf + ?SZ + of_nat d * ?SZ, nb - ?SZ - of_nat d * ?SZ)"
    and l: "length tbl' = n"
    and nth: "\<forall>j<n. tbl' ! j =
                (if unat (i + 1) \<le> j \<and> j < n - 1
                 then full_desc k (buf + ?SZ + of_nat (j - unat (i + 1)) * ?SZ)
                 else ?tbl ! j)"
    using Suc.IH [of "i + 1" ?tbl "buf + ?SZ" "nb - ?SZ"] by blast
  have a1: "buf + ?SZ + of_nat d * ?SZ = buf + of_nat (Suc d) * ?SZ"
    by (simp add: algebra_simps)
  have a2: "nb - ?SZ - of_nat d * ?SZ = nb - of_nat (Suc d) * ?SZ"
    by (simp add: algebra_simps)
  have "\<forall>j<n. tbl' ! j =
          (if unat i \<le> j \<and> j < n - 1
           then full_desc k (buf + of_nat (j - unat i) * ?SZ)
           else tbl ! j)"
  proof (intro allI impI)
    fix j assume j: "j < n"
    show "tbl' ! j = (if unat i \<le> j \<and> j < n - 1
           then full_desc k (buf + of_nat (j - unat i) * ?SZ) else tbl ! j)"
    proof (cases "Suc (unat i) \<le> j \<and> j < n - 1")
      case True
      have t1: "tbl' ! j =
                (if unat (i + 1) \<le> j \<and> j < n - 1
                 then full_desc k (buf + ?SZ + of_nat (j - unat (i + 1)) * ?SZ)
                 else ?tbl ! j)"
        using nth j by blast
      have c: "unat (i + 1) \<le> j \<and> j < n - 1" using True ui by simp
      have t2: "tbl' ! j = full_desc k (buf + ?SZ + of_nat (j - unat (i + 1)) * ?SZ)"
        unfolding t1 by (rule if_P [OF c])
      have jj: "j - unat i = Suc (j - Suc (unat i))" using True by linarith
      define x :: "32 word" where "x = of_nat (j - Suc (unat i))"
      have w: "(of_nat (j - unat i) :: 32 word) = x + 1"
        unfolding x_def by (subst jj) (simp only: of_nat_Suc add.commute)
      have "buf + ?SZ + x * ?SZ = buf + (x + 1) * ?SZ" by (simp add: algebra_simps)
      then have e: "buf + ?SZ + of_nat (j - unat (i + 1)) * ?SZ = buf + of_nat (j - unat i) * ?SZ"
        unfolding ui w x_def .
      have c2: "unat i \<le> j \<and> j < n - 1" using True by simp
      show ?thesis by (simp only: if_P [OF c2] t2 e)
    next
      case False
      have t1: "tbl' ! j =
                (if unat (i + 1) \<le> j \<and> j < n - 1
                 then full_desc k (buf + ?SZ + of_nat (j - unat (i + 1)) * ?SZ)
                 else ?tbl ! j)"
        using nth j by blast
      have nc: "\<not> (unat (i + 1) \<le> j \<and> j < n - 1)" using False ui by simp
      have t3: "tbl' ! j = ?tbl ! j" unfolding t1 by (rule if_not_P [OF nc])
      show ?thesis
      proof (cases "j = unat i")
        case True
        have c2: "unat i \<le> j \<and> j < n - 1" using True Suc(2) by simp
        have "?tbl ! j = full_desc k buf" using True inb by simp
        moreover have "buf + of_nat (j - unat i) * ?SZ = buf" using True by simp
        ultimately show ?thesis using t3 by (simp only: if_P [OF c2])
      next
        case ne: False
        have nc2: "\<not> (unat i \<le> j \<and> j < n - 1)" using False ne by linarith
        have "?tbl ! j = tbl ! j" using ne by simp
        then show ?thesis using t3 by (simp only: if_not_P [OF nc2])
      qed
    qed
  qed
  then show ?case using step r l a1 a2 by simp
qed

lemma prep_desc_table_chain:
  fixes k :: adma_defs and nbytes buf :: "32 word"
  defines "SZ \<equiv> SDHCI_ADMA_DESC_LINE_SZ k"
  defines "n \<equiv> (unat nbytes + unat SZ - 1) div unat SZ"
  assumes alloc: "alloc_in w (nallocs w) \<noteq> 0"
    and big: "8 < SZ" and multi: "SZ < nbytes"
  shows "\<exists>tbl w'. sdhci_prep_desc_table k w buf nbytes =
             Inr (\<lparr>sg_ptr = alloc_in w (nallocs w), sg_entries = tbl\<rparr>, w')
           \<and> length tbl = n \<and> 2 \<le> n
           \<and> (\<forall>j<n - 1. tbl ! j = full_desc k (buf + of_nat j * SZ))
           \<and> tbl ! (n - 1) =
               \<lparr>tran_att = SDHCI_ADMA_TRANS_VALID k OR SDHCI_ADMA_TRANS_DATA k
                             OR SDHCI_ADMA_TRANS_END k,
                len = ucast (nbytes - of_nat (n - 1) * SZ),
                addr = buf + of_nat (n - 1) * SZ\<rparr>
           \<and> unat (nbytes - of_nat (n - 1) * SZ) = unat nbytes - (n - 1) * unat SZ
           \<and> unat nbytes - (n - 1) * unat SZ \<le> unat SZ
           \<and> (n - 1) * unat SZ < unat nbytes"
proof -
  define L where "L = unat nbytes"
  define S where "S = unat SZ"
  have S8: "8 < S" using big by (simp add: S_def word_less_nat_alt)
  then have S0: "0 < S" by simp
  have SL: "S < L" using multi by (simp add: S_def L_def word_less_nat_alt)
  have L32: "L < 2 ^ 32" using unsigned_less [of nbytes] by (simp add: L_def)
  define n' where "n' = (if L mod S \<noteq> 0 then L div S + 1 else L div S)"
  note cf = ceil_div_facts [OF S0 SL, folded n'_def]
  have nn: "n' = n" using cf(1) by (simp add: n_def L_def S_def)
  have n2: "2 \<le> n" using cf(2) nn by simp
  have below: "(n - 1) * S < L" using cf(3) nn by simp
  have rest: "L - (n - 1) * S \<le> S" using cf(4) nn by simp
  have "(n - 1) * 9 \<le> (n - 1) * S" using S8 by (intro mult_le_mono2) simp
  also have "\<dots> < L" by (rule below)
  also have "L < 4294967296" using L32 by simp
  finally have "(n - 1) * 9 < 4294967296" .
  then have n8: "n * 8 < 2 ^ 32" using n2 by simp
  have nz: "SZ \<noteq> 0" using S0 by (auto simp: S_def)
  have nle: "\<not> nbytes \<le> SZ" using multi by simp
  \<comment> \<open>the quotient, the remainder and the number of entries\<close>
  let ?q = "nbytes div SZ"
  have q: "unat ?q = L div S" by (simp add: unat_div L_def S_def)
  have ds: "L div S * S \<le> L" by simp
  have qs32: "unat ?q * unat SZ < 2 ^ 32"
    unfolding q S_def [symmetric] using ds L32 by (rule le_less_trans)
  have qs: "unat (?q * SZ) = L div S * S"
    using qs32 unat_mult_lem [of ?q SZ] q by (simp add: S_def)
  have qsle: "?q * SZ \<le> nbytes" using qs by (simp add: word_le_nat_alt L_def)
  have rem: "unat (nbytes - ?q * SZ) = L mod S"
    using unat_sub [OF qsle] qs by (simp add: L_def minus_div_mult_eq_mod)
  have remz: "(nbytes - ?q * SZ \<noteq> 0) = (L mod S \<noteq> 0)"
    unfolding rem [symmetric] by (simp only: unat_0_iff)
  let ?sg = "desc_table_entries k nbytes"
  have sgdef: "?sg = (if nbytes - ?q * SZ \<noteq> 0 then ?q + 1 else ?q)"
    by (simp add: desc_table_entries_def SZ_def Let_def)
  have "L div S < L" using S8 SL by (simp add: div_less_dividend)
  then have "unat ?q + unat (1 :: 32 word) < 2 ^ 32" using q L32 by simp
  then have q1: "unat (?q + 1) = L div S + 1"
    using unat_add_lem [of ?q 1] q by simp
  have sg: "unat ?sg = n" unfolding sgdef using remz q q1 nn by (auto simp: n'_def split: if_splits)
  have "unat ?sg \<noteq> 0" using sg n2 by simp
  then have sgnz: "?sg \<noteq> 0" by (simp only: unat_0_iff not_False_eq_True)
  have sg1: "unat (?sg - 1) = n - 1" using unat_minus_one [OF sgnz] sg by simp
  have "unat ?sg * unat (8 :: 32 word) < 2 ^ 32" using sg n8 by simp
  then have tl: "unat (?sg * 8) = n * 8" using unat_mult_lem [of ?sg 8] sg by simp
  have zl: "length (zeroed_table (?sg * sizeof_desc_entry)) = n"
    using tl by (simp add: zeroed_table_def sizeof_desc_entry_def)
  \<comment> \<open>the loop\<close>
  have "0 < n" "unat (0 :: 32 word) + (n - 1) = n - 1" using n2 by simp_all
  from desc_fill_spec [OF zl sg1 this zl, where k = k and buf = buf and nb = nbytes]
  obtain tbl' where
    fill: "desc_fill k ?sg 0 (zeroed_table (?sg * sizeof_desc_entry)) buf nbytes =
             Inr (tbl', buf + of_nat (n - 1) * SZ, nbytes - of_nat (n - 1) * SZ)"
    and len': "length tbl' = n"
    and nth': "\<forall>j<n. tbl' ! j =
                 (if unat (0 :: 32 word) \<le> j \<and> j < n - 1
                  then full_desc k (buf + of_nat (j - unat (0 :: 32 word)) * SZ)
                  else zeroed_table (?sg * sizeof_desc_entry) ! j)"
    unfolding SZ_def by blast
  \<comment> \<open>the last entry\<close>
  let ?last = "\<lparr>tran_att = SDHCI_ADMA_TRANS_VALID k OR SDHCI_ADMA_TRANS_DATA k
                             OR SDHCI_ADMA_TRANS_END k,
                len = ucast (nbytes - of_nat (n - 1) * SZ),
                addr = buf + of_nat (n - 1) * SZ\<rparr>"
  have store: "sg_store tbl' (unat (?sg - 1)) ?last = Inr (tbl'[n - 1 := ?last])"
    using sg1 len' n2 by (simp add: sg_store_def)
  have n32: "n - 1 < 2 ^ 32" using n8 by simp
  then have un: "unat (of_nat (n - 1) :: 32 word) = n - 1"
    by (simp add: unat_of_nat take_bit_nat_eq_self)
  have "unat (of_nat (n - 1) :: 32 word) * unat SZ < 2 ^ 32"
    using un below L32 by (simp add: S_def)
  then have um: "unat (of_nat (n - 1) * SZ) = (n - 1) * S"
    using unat_mult_lem [of "of_nat (n - 1) :: 32 word" SZ] un by (simp add: S_def)
  then have "of_nat (n - 1) * SZ \<le> nbytes" using below by (simp add: word_le_nat_alt L_def)
  from unat_sub [OF this] um
  have ul: "unat (nbytes - of_nat (n - 1) * SZ) = L - (n - 1) * S" by (simp add: L_def)
  let ?w1 = "snd (memalign w 4 (?sg * sizeof_desc_entry))"
  have res: "sdhci_prep_desc_table k w buf nbytes =
               Inr (\<lparr>sg_ptr = alloc_in w (nallocs w), sg_entries = tbl'[n - 1 := ?last]\<rparr>,
                    arch_clean_invalidate_cache_range ?w1 (alloc_in w (nallocs w))
                      (?sg * sizeof_desc_entry))"
    using nle nz alloc fill store
    by (simp add: sdhci_prep_desc_table_def Let_def memalign_def SZ_def)
  have "\<forall>j<n - 1. (tbl'[n - 1 := ?last]) ! j = full_desc k (buf + of_nat j * SZ)"
    using nth' by simp
  moreover have "(tbl'[n - 1 := ?last]) ! (n - 1) = ?last" using len' n2 by simp
  ultimately show ?thesis
    using res len' n2 ul rest below by (auto simp: L_def S_def)
qed

text \<open>The 16-bit length field keeps the low 16 bits of the value stored into it.\<close>

lemma ucast16_le: "unat (ucast (x :: 32 word) :: 16 word) \<le> unat x"
  by (simp add: unsigned_ucast_eq take_bit_eq_mod)

lemma ucast16_less: "65536 \<le> unat (x :: 32 word) \<Longrightarrow> unat (ucast x :: 16 word) < unat x"
proof -
  assume a: "65536 \<le> unat x"
  have "unat (ucast x :: 16 word) < 65536" using unsigned_less [of "ucast x :: 16 word"] by simp
  then show ?thesis using a by simp
qed

text \<open>The loop of lines 527 to 533 on 0x30005 bytes at 0x100000, with lines of 65536
  bytes: three full entries, each stored with length 0.\<close>

lemma replicate_4: "replicate 4 x = [x, x, x, x]"
  by (simp add: numeral_eq_Suc)

lemma list4_update:
  "[a, b, c, d][0 := x] = [x, b, c, d]"
  "[a, b, c, d][Suc 0 := x] = [a, x, c, d]"
  "[a, b, c, d][2 := x] = [a, b, x, d]"
  "[a, b, c, d][3 := x] = [a, b, c, x]"
  by (simp_all add: numeral_2_eq_2 numeral_3_eq_3)

lemma desc_fill_64k_run:
  "desc_fill adma2_64k_defs 4 0
     (replicate 4 \<lparr>tran_att = 0, len = 0, addr = 0\<rparr>) 0x100000 0x30005 =
   Inr ([\<lparr>tran_att = 0x21, len = 0, addr = 0x100000\<rparr>,
         \<lparr>tran_att = 0x21, len = 0, addr = 0x110000\<rparr>,
         \<lparr>tran_att = 0x21, len = 0, addr = 0x120000\<rparr>,
         \<lparr>tran_att = 0, len = 0, addr = 0\<rparr>], 0x130000, 5)"
  apply (subst desc_fill.simps)
  apply (simp add: sg_store_def adma2_64k_defs_def replicate_4)
  apply (subst desc_fill.simps)
  apply (simp add: sg_store_def adma2_64k_defs_def)
  apply (subst desc_fill.simps)
  apply (simp add: sg_store_def adma2_64k_defs_def list4_update)
  apply (subst desc_fill.simps)
  apply (simp add: sg_store_def adma2_64k_defs_def)
  done

section \<open>The descriptor table: claims\<close>

text \<open>
  Claim C1, as the code has it. Let \<^verbatim>\<open>memalign\<close> return a table, let a descriptor line be
  longer than the eight bytes of an entry, and let the End bit be a bit that Valid and
  Data do not have. Then for every buffer address and every length the builder returns a
  table that is not empty. Every entry but the last covers one full line and carries
  Valid and Data; the last entry covers a rest of at most one line and carries Valid,
  Data and End, so that End is on the last entry and on no other; the full lines and the
  rest add up to the length asked for, and each entry starts one line after the one
  before it, the first at the buffer address. A length of at most one line gives one
  entry, a longer one the length divided by the line size, rounded up. The length field
  of an entry has 16 bits and holds the low 16 bits of what the entry covers. When the
  line size or the length asked for is below 65536, the stored lengths are what the
  entries cover: they add up to the length asked for and none exceeds a line. When both
  are 65536 or more, the stored lengths add up to less than the length asked for.
\<close>

theorem desc_table_spans:
  assumes alloc: "alloc_in w (nallocs w) \<noteq> 0"
    and big: "8 < SDHCI_ADMA_DESC_LINE_SZ k"
    and end0: "SDHCI_ADMA_TRANS_END k \<noteq> 0"
    and disj: "(SDHCI_ADMA_TRANS_VALID k OR SDHCI_ADMA_TRANS_DATA k) AND SDHCI_ADMA_TRANS_END k = 0"
  shows "\<exists>tbl w' rest. sdhci_prep_desc_table k w buf nbytes =
             Inr (\<lparr>sg_ptr = alloc_in w (nallocs w), sg_entries = tbl\<rparr>, w')
           \<and> tbl \<noteq> []
           \<and> list_all (\<lambda>e. len e = ucast (SDHCI_ADMA_DESC_LINE_SZ k)
                          \<and> tran_att e = SDHCI_ADMA_TRANS_VALID k OR SDHCI_ADMA_TRANS_DATA k)
                (butlast tbl)
           \<and> len (last tbl) = ucast rest
           \<and> tran_att (last tbl) = SDHCI_ADMA_TRANS_VALID k OR SDHCI_ADMA_TRANS_DATA k
                                     OR SDHCI_ADMA_TRANS_END k
           \<and> rest \<le> SDHCI_ADMA_DESC_LINE_SZ k
           \<and> (length tbl - 1) * unat (SDHCI_ADMA_DESC_LINE_SZ k) + unat rest = unat nbytes
           \<and> tran_att (last tbl) AND SDHCI_ADMA_TRANS_END k = SDHCI_ADMA_TRANS_END k
           \<and> list_all (\<lambda>e. tran_att e AND SDHCI_ADMA_TRANS_END k \<noteq> SDHCI_ADMA_TRANS_END k)
                (butlast tbl)
           \<and> map addr tbl =
                 map (\<lambda>j. buf + of_nat j * SDHCI_ADMA_DESC_LINE_SZ k) [0..<length tbl]
           \<and> (nbytes \<le> SDHCI_ADMA_DESC_LINE_SZ k \<longrightarrow> length tbl = 1)
           \<and> (SDHCI_ADMA_DESC_LINE_SZ k < nbytes \<longrightarrow>
                length tbl = (unat nbytes + unat (SDHCI_ADMA_DESC_LINE_SZ k) - 1)
                               div unat (SDHCI_ADMA_DESC_LINE_SZ k))
           \<and> (SDHCI_ADMA_DESC_LINE_SZ k < 0x10000 \<or> nbytes < 0x10000 \<longrightarrow>
                sum_list (map (\<lambda>e. unat (len e)) tbl) = unat nbytes
              \<and> list_all (\<lambda>e. unat (len e) \<le> unat (SDHCI_ADMA_DESC_LINE_SZ k)) tbl
              \<and> list_all (\<lambda>e. unat (len e) = unat (SDHCI_ADMA_DESC_LINE_SZ k)) (butlast tbl)
              \<and> unat (len (last tbl)) = unat rest)
           \<and> (0x10000 \<le> SDHCI_ADMA_DESC_LINE_SZ k \<and> 0x10000 \<le> nbytes \<longrightarrow>
                sum_list (map (\<lambda>e. unat (len e)) tbl) < unat nbytes)"
proof (cases "nbytes \<le> SDHCI_ADMA_DESC_LINE_SZ k")
  case True
  let ?SZ = "SDHCI_ADMA_DESC_LINE_SZ k"
  let ?e = "\<lparr>tran_att = SDHCI_ADMA_TRANS_VALID k OR SDHCI_ADMA_TRANS_DATA k
                          OR SDHCI_ADMA_TRANS_END k, len = ucast nbytes, addr = buf\<rparr>"
  have le: "unat nbytes \<le> unat ?SZ" using True by (simp add: word_le_nat_alt)
  have fit: "?SZ < 0x10000 \<or> nbytes < 0x10000 \<Longrightarrow>
               unat (ucast nbytes :: 16 word) = unat nbytes"
    using le unat_ucast16 [of nbytes] by (auto simp: word_less_nat_alt)
  have cut: "0x10000 \<le> nbytes \<Longrightarrow> unat (ucast nbytes :: 16 word) < unat nbytes"
    using ucast16_less [of nbytes] by (simp add: word_le_nat_alt)
  have nlt: "\<not> ?SZ < nbytes" using True by simp
  have res: "sdhci_prep_desc_table k w buf nbytes =
               Inr (\<lparr>sg_ptr = alloc_in w (nallocs w), sg_entries = [?e]\<rparr>,
                    arch_clean_invalidate_cache_range
                      (arch_clean_invalidate_cache_range (snd (memalign w 4 sizeof_desc_entry))
                         (alloc_in w (nallocs w)) sizeof_desc_entry)
                      (alloc_in w (nallocs w)) 0)"
    using True alloc by (simp add: sdhci_prep_desc_table_def memalign_def)
  show ?thesis
    apply (rule exI [where x = "[?e]"])
    apply (rule exI)
    apply (rule exI [where x = nbytes])
    using res True nlt le fit cut by (simp add: end_bit_kept)
next
  case False
  let ?SZ = "SDHCI_ADMA_DESC_LINE_SZ k"
  let ?V = "SDHCI_ADMA_TRANS_VALID k OR SDHCI_ADMA_TRANS_DATA k"
  let ?E = "SDHCI_ADMA_TRANS_END k"
  define n where "n = (unat nbytes + unat ?SZ - 1) div unat ?SZ"
  have multi: "?SZ < nbytes" using False by simp
  from prep_desc_table_chain [OF alloc big multi, of buf, folded n_def]
  obtain tbl w' where
    res: "sdhci_prep_desc_table k w buf nbytes =
            Inr (\<lparr>sg_ptr = alloc_in w (nallocs w), sg_entries = tbl\<rparr>, w')"
    and len: "length tbl = n" and n2: "2 \<le> n"
    and nth: "\<forall>j<n - 1. tbl ! j = full_desc k (buf + of_nat j * ?SZ)"
    and lst: "tbl ! (n - 1) =
               \<lparr>tran_att = SDHCI_ADMA_TRANS_VALID k OR SDHCI_ADMA_TRANS_DATA k OR ?E,
                len = ucast (nbytes - of_nat (n - 1) * ?SZ),
                addr = buf + of_nat (n - 1) * ?SZ\<rparr>"
    and ul: "unat (nbytes - of_nat (n - 1) * ?SZ) = unat nbytes - (n - 1) * unat ?SZ"
    and rest: "unat nbytes - (n - 1) * unat ?SZ \<le> unat ?SZ"
    and below: "(n - 1) * unat ?SZ < unat nbytes"
    by blast
  define r where "r = nbytes - of_nat (n - 1) * ?SZ"
  have ur: "unat r = unat nbytes - (n - 1) * unat ?SZ" using ul by (simp add: r_def)
  have rle: "r \<le> ?SZ" using ur rest by (simp add: word_le_nat_alt)
  have total: "(n - 1) * unat ?SZ + unat r = unat nbytes" using ur below by simp
  have ne: "tbl \<noteq> []" using len n2 by auto
  have last: "last tbl = tbl ! (n - 1)" using ne len by (simp add: last_conv_nth)
  have lenlast: "len (last tbl) = ucast r" using last lst by (simp add: r_def)
  have attlast: "tran_att (last tbl) =
                   SDHCI_ADMA_TRANS_VALID k OR SDHCI_ADMA_TRANS_DATA k OR ?E"
    using last lst by simp
  have bl: "length (butlast tbl) = n - 1" using len by simp
  have bnth: "\<forall>j<n - 1. butlast tbl ! j = full_desc k (buf + of_nat j * ?SZ)"
    using nth bl by (simp add: nth_butlast)
  have b1: "list_all (\<lambda>e. len e = ucast ?SZ \<and> tran_att e = ?V) (butlast tbl)"
    using bnth bl by (simp add: list_all_length full_desc_def)
  then have b3: "list_all (\<lambda>e. tran_att e = ?V) (butlast tbl)"
    and b5: "list_all (\<lambda>e. len e = ucast ?SZ) (butlast tbl)"
    by (simp_all add: list_all_iff)
  have VE: "?V AND ?E \<noteq> ?E" using disj end0 by simp
  have b4: "list_all (\<lambda>e. tran_att e AND ?E \<noteq> ?E) (butlast tbl)"
    using b3 VE by (simp add: list_all_iff)
  have marked: "tran_att (last tbl) AND ?E = ?E" using attlast by (simp add: end_bit_kept)
  have addrs: "map addr tbl = map (\<lambda>j. buf + of_nat j * ?SZ) [0..<length tbl]"
  proof (rule nth_equalityI)
    show "length (map addr tbl) = length (map (\<lambda>j. buf + of_nat j * ?SZ) [0..<length tbl])"
      by simp
  next
    fix j assume "j < length (map addr tbl)"
    then have j: "j < n" using len by simp
    show "map addr tbl ! j = map (\<lambda>j. buf + of_nat j * ?SZ) [0..<length tbl] ! j"
    proof (cases "j < n - 1")
      case True
      then show ?thesis using nth j len by (simp add: full_desc_def)
    next
      case False
      then have "j = n - 1" using j by simp
      then show ?thesis using lst j len by simp
    qed
  qed
  have stored: "sum_list (map (\<lambda>e. unat (len e)) tbl) = unat nbytes
              \<and> list_all (\<lambda>e. unat (len e) \<le> unat ?SZ) tbl
              \<and> list_all (\<lambda>e. unat (len e) = unat ?SZ) (butlast tbl)
              \<and> unat (len (last tbl)) = unat r" if fits: "?SZ < 0x10000 \<or> nbytes < 0x10000"
  proof -
    have "?SZ < 0x10000" using fits multi by auto
    then have S16: "unat ?SZ < 65536" by (simp add: word_less_nat_alt)
    have us: "unat (ucast ?SZ :: 16 word) = unat ?SZ" using S16 by (rule unat_ucast16)
    have ulast: "unat (len (last tbl)) = unat r"
      using lenlast ur rest S16 unat_ucast16 [of r] by simp
    have b2: "list_all (\<lambda>e. unat (len e) = unat ?SZ) (butlast tbl)"
      using b5 us by (simp add: list_all_iff)
    have sumb: "sum_list (map (\<lambda>e. unat (len e)) (butlast tbl)) = (n - 1) * unat ?SZ"
      using sum_list_const_len [OF b2] bl by simp
    have sum: "sum_list (map (\<lambda>e. unat (len e)) tbl) = unat nbytes"
      using sum_list_butlast_last [OF ne, of "\<lambda>e. unat (len e)"] sumb ulast total by simp
    have "list_all (\<lambda>e. unat (len e) \<le> unat ?SZ) (butlast tbl @ [last tbl])"
      using b2 ulast ur rest by (simp add: list_all_iff)
    then have "list_all (\<lambda>e. unat (len e) \<le> unat ?SZ) tbl" using ne by simp
    then show ?thesis using sum b2 ulast by simp
  qed
  have short: "sum_list (map (\<lambda>e. unat (len e)) tbl) < unat nbytes" if wide: "0x10000 \<le> ?SZ"
  proof -
    have S16: "65536 \<le> unat ?SZ" using wide by (simp add: word_le_nat_alt)
    define c where "c = unat (ucast ?SZ :: 16 word)"
    have c: "c < unat ?SZ" using ucast16_less [of ?SZ] S16 by (simp add: c_def)
    have b2: "list_all (\<lambda>e. unat (len e) = c) (butlast tbl)"
      using b5 by (simp add: list_all_iff c_def)
    have sumb: "sum_list (map (\<lambda>e. unat (len e)) (butlast tbl)) = (n - 1) * c"
      using sum_list_const_len [OF b2] bl by simp
    have ulast: "unat (len (last tbl)) \<le> unat r"
      using lenlast ucast16_le [of r] by simp
    have pos: "0 < n - 1" using n2 by simp
    have "(n - 1) * c < (n - 1) * unat ?SZ" using c pos by simp
    then have "(n - 1) * c + unat (len (last tbl)) < (n - 1) * unat ?SZ + unat r"
      using ulast by (rule add_less_le_mono)
    then show ?thesis
      using sum_list_butlast_last [OF ne, of "\<lambda>e. unat (len e)"] sumb total by simp
  qed
  show ?thesis
    apply (rule exI [where x = tbl])
    apply (rule exI [where x = w'])
    apply (rule exI [where x = r])
    using res ne b1 lenlast attlast rle total marked b4 False len stored short addrs
    by (simp add: n_def)
qed

text \<open>
  C1 on two tables of four entries. With lines of 65536 bytes and 0x30005 bytes asked
  for, three entries are stored with length 0 and the last covers 5 bytes. With lines of
  32768 bytes and 100000 bytes asked for, three entries are stored with length 32768 and
  the last with 1696, and the stored lengths add up to 100000.
\<close>

theorem desc_table_spans_witness:
  "(\<exists>tbl w' rest.
      sdhci_prep_desc_table adma2_64k_defs (boot_world (\<lambda>r n. 0)) 0x100000 0x30005 =
        Inr (\<lparr>sg_ptr = 0x8000, sg_entries = tbl\<rparr>, w')
      \<and> length tbl = 4
      \<and> list_all (\<lambda>e. len e = 0 \<and> tran_att e = 0x21) (butlast tbl)
      \<and> len (last tbl) = ucast (rest :: 32 word) \<and> unat rest = 5
      \<and> tran_att (last tbl) = 0x23
      \<and> sum_list (map (\<lambda>e. unat (len e)) tbl) < 196613)
   \<and> (\<exists>tbl w'.
      sdhci_prep_desc_table sd3_adma_defs (boot_world (\<lambda>r n. 0)) 0x100000 100000 =
        Inr (\<lparr>sg_ptr = 0x8000, sg_entries = tbl\<rparr>, w')
      \<and> sum_list (map (\<lambda>e. unat (len e)) tbl) = 100000
      \<and> length tbl = 4
      \<and> list_all (\<lambda>e. unat (len e) = 32768) (butlast tbl)
      \<and> list_all (\<lambda>e. tran_att e = 0x21) (butlast tbl)
      \<and> unat (len (last tbl)) = 1696
      \<and> tran_att (last tbl) = 0x23)"
proof -
  have a: "alloc_in (boot_world (\<lambda>r n. 0)) (nallocs (boot_world (\<lambda>r n. 0))) \<noteq> 0"
    by (simp add: boot_world_def)
  have p: "alloc_in (boot_world (\<lambda>r n. 0)) (nallocs (boot_world (\<lambda>r n. 0))) = 0x8000"
    by (simp add: boot_world_def)
  have k64:
    "SDHCI_ADMA_DESC_LINE_SZ adma2_64k_defs = 0x10000"
    "SDHCI_ADMA_TRANS_VALID adma2_64k_defs = 1"
    "SDHCI_ADMA_TRANS_DATA adma2_64k_defs = 0x20"
    "SDHCI_ADMA_TRANS_END adma2_64k_defs = 2"
    by (simp_all add: adma2_64k_defs_def)
  have k32:
    "SDHCI_ADMA_DESC_LINE_SZ sd3_adma_defs = 0x8000"
    "SDHCI_ADMA_TRANS_VALID sd3_adma_defs = 1"
    "SDHCI_ADMA_TRANS_DATA sd3_adma_defs = 0x20"
    "SDHCI_ADMA_TRANS_END sd3_adma_defs = 2"
    by (simp_all add: sd3_adma_defs_def)
  have z16: "(ucast (0x10000 :: 32 word) :: 16 word) = 0" by simp
  have "\<exists>tbl w' rest.
      sdhci_prep_desc_table adma2_64k_defs (boot_world (\<lambda>r n. 0)) 0x100000 0x30005 =
        Inr (\<lparr>sg_ptr = 0x8000, sg_entries = tbl\<rparr>, w')
      \<and> tbl \<noteq> []
      \<and> list_all (\<lambda>e. len e = 0 \<and> tran_att e = 0x21) (butlast tbl)
      \<and> len (last tbl) = ucast (rest :: 32 word)
      \<and> tran_att (last tbl) = 0x23
      \<and> rest \<le> 0x10000
      \<and> (length tbl - 1) * 65536 + unat rest = 196613
      \<and> length tbl = 4
      \<and> sum_list (map (\<lambda>e. unat (len e)) tbl) < 196613"
    using desc_table_spans [OF a, of adma2_64k_defs "0x100000" "0x30005"]
    unfolding k64 p z16 by auto
  then obtain tbl w' and rest :: "32 word" where
    r: "sdhci_prep_desc_table adma2_64k_defs (boot_world (\<lambda>r n. 0)) 0x100000 0x30005 =
          Inr (\<lparr>sg_ptr = 0x8000, sg_entries = tbl\<rparr>, w')"
    and l: "length tbl = 4"
    and b: "list_all (\<lambda>e. len e = 0 \<and> tran_att e = 0x21) (butlast tbl)"
    and e: "len (last tbl) = ucast (rest :: 32 word)"
    and s: "(length tbl - 1) * 65536 + unat rest = 196613"
    and t: "tran_att (last tbl) = 0x23"
    and c: "sum_list (map (\<lambda>e. unat (len e)) tbl) < 196613"
    by blast
  from s l have "unat rest = 5" by simp
  with r l b e t c have first: "\<exists>tbl w' rest.
      sdhci_prep_desc_table adma2_64k_defs (boot_world (\<lambda>r n. 0)) 0x100000 0x30005 =
        Inr (\<lparr>sg_ptr = 0x8000, sg_entries = tbl\<rparr>, w')
      \<and> length tbl = 4
      \<and> list_all (\<lambda>e. len e = 0 \<and> tran_att e = 0x21) (butlast tbl)
      \<and> len (last tbl) = ucast (rest :: 32 word) \<and> unat rest = 5
      \<and> tran_att (last tbl) = 0x23
      \<and> sum_list (map (\<lambda>e. unat (len e)) tbl) < 196613"
    by blast
  have "\<exists>tbl w' rest.
      sdhci_prep_desc_table sd3_adma_defs (boot_world (\<lambda>r n. 0)) 0x100000 100000 =
        Inr (\<lparr>sg_ptr = 0x8000, sg_entries = tbl\<rparr>, w')
      \<and> tbl \<noteq> []
      \<and> list_all (\<lambda>e. len e = 0x8000 \<and> tran_att e = 0x21) (butlast tbl)
      \<and> len (last tbl) = ucast (rest :: 32 word)
      \<and> tran_att (last tbl) = 0x23
      \<and> rest \<le> 0x8000
      \<and> (length tbl - 1) * 32768 + unat rest = 100000
      \<and> length tbl = 4
      \<and> sum_list (map (\<lambda>e. unat (len e)) tbl) = 100000
      \<and> list_all (\<lambda>e. unat (len e) \<le> 32768) tbl
      \<and> list_all (\<lambda>e. unat (len e) = 32768) (butlast tbl)
      \<and> unat (len (last tbl)) = unat rest"
    using desc_table_spans [OF a, of sd3_adma_defs "0x100000" 100000]
    unfolding k32 p by auto
  then obtain tbl2 w2 and rest2 :: "32 word" where
    r2: "sdhci_prep_desc_table sd3_adma_defs (boot_world (\<lambda>r n. 0)) 0x100000 100000 =
          Inr (\<lparr>sg_ptr = 0x8000, sg_entries = tbl2\<rparr>, w2)"
    and l2: "length tbl2 = 4"
    and sm: "sum_list (map (\<lambda>e. unat (len e)) tbl2) = 100000"
    and b2: "list_all (\<lambda>e. unat (len e) = 32768) (butlast tbl2)"
    and a2: "list_all (\<lambda>e. len e = 0x8000 \<and> tran_att e = 0x21) (butlast tbl2)"
    and s2: "(length tbl2 - 1) * 32768 + unat rest2 = 100000"
    and u2: "unat (len (last tbl2)) = unat rest2"
    and t2: "tran_att (last tbl2) = 0x23"
    by blast
  from s2 l2 u2 have "unat (len (last tbl2)) = 1696" by simp
  moreover from a2 have "list_all (\<lambda>e. tran_att e = 0x21) (butlast tbl2)"
    by (simp add: list_all_iff)
  ultimately have second: "\<exists>tbl w'.
      sdhci_prep_desc_table sd3_adma_defs (boot_world (\<lambda>r n. 0)) 0x100000 100000 =
        Inr (\<lparr>sg_ptr = 0x8000, sg_entries = tbl\<rparr>, w')
      \<and> sum_list (map (\<lambda>e. unat (len e)) tbl) = 100000
      \<and> length tbl = 4
      \<and> list_all (\<lambda>e. unat (len e) = 32768) (butlast tbl)
      \<and> list_all (\<lambda>e. tran_att e = 0x21) (butlast tbl)
      \<and> unat (len (last tbl)) = 1696
      \<and> tran_att (last tbl) = 0x23"
    using r2 sm l2 b2 t2 by blast
  from first second show ?thesis by (rule conjI)
qed

text \<open>
  Claim C1 as stated has the lengths of the entries add up to the length asked for. With
  lines of 65536 bytes and 0x30005 bytes asked for, the table holds the lengths 0, 0, 0
  and 5, which add up to 5.
\<close>

theorem desc_table_stored_lengths_counterexample:
  "sdhci_prep_desc_table adma2_64k_defs (boot_world (\<lambda>r n. 0)) 0x100000 0x30005 =
     Inr (\<lparr>sg_ptr = 0x8000,
           sg_entries =
             [\<lparr>tran_att = 0x21, len = 0, addr = 0x100000\<rparr>,
              \<lparr>tran_att = 0x21, len = 0, addr = 0x110000\<rparr>,
              \<lparr>tran_att = 0x21, len = 0, addr = 0x120000\<rparr>,
              \<lparr>tran_att = 0x23, len = 5, addr = 0x130000\<rparr>]\<rparr>,
          boot_world (\<lambda>r n. 0)\<lparr>nallocs := 1,
            events := [Memalign 4 32 0x8000, Clean_invalidate_cache 0x8000 32]\<rparr>)
   \<and> sum_list (map (\<lambda>e. unat (len e))
         [\<lparr>tran_att = 0x21, len = 0, addr = 0x100000\<rparr>,
          \<lparr>tran_att = 0x21, len = 0, addr = 0x110000\<rparr>,
          \<lparr>tran_att = 0x21, len = 0, addr = 0x120000\<rparr>,
          \<lparr>tran_att = 0x23, len = 5, addr = 0x130000\<rparr>]) = 5
   \<and> sum_list (map (\<lambda>e. unat (len e))
         [\<lparr>tran_att = 0x21, len = 0, addr = 0x100000\<rparr>,
          \<lparr>tran_att = 0x21, len = 0, addr = 0x110000\<rparr>,
          \<lparr>tran_att = 0x21, len = 0, addr = 0x120000\<rparr>,
          \<lparr>tran_att = 0x23, len = 5, addr = 0x130000\<rparr>]) \<noteq> unat (0x30005 :: 32 word)"
proof -
  have n: "desc_table_entries adma2_64k_defs 0x30005 = 4"
    by (simp add: desc_table_entries_def adma2_64k_defs_def Let_def)
  have z: "zeroed_table 32 = replicate 4 \<lparr>tran_att = 0, len = 0, addr = 0\<rparr>"
    by (simp add: zeroed_table_def sizeof_desc_entry_def)
  have sz: "SDHCI_ADMA_DESC_LINE_SZ adma2_64k_defs = 0x10000"
    and att: "SDHCI_ADMA_TRANS_VALID adma2_64k_defs OR SDHCI_ADMA_TRANS_DATA adma2_64k_defs
                OR SDHCI_ADMA_TRANS_END adma2_64k_defs = 0x23"
    by (simp_all add: adma2_64k_defs_def)
  show ?thesis
    by (simp add: sdhci_prep_desc_table_def n z sz att desc_fill_64k_run sg_store_def
        memalign_def arch_clean_invalidate_cache_range_def emit_def boot_world_def
        sizeof_desc_entry_def Let_def list4_update)
qed

section \<open>Sending a command: lemmas\<close>

lemma lines_free_wait_filter:
  assumes "\<And>n. \<not> q (Udelay n)" "\<And>m. \<not> q (Dprintf m)"
  shows "filter q (events (snd (lines_free_wait s w retry))) = filter q (events w)"
proof (induction s w retry rule: lines_free_wait.induct)
  case (1 s w retry)
  then show ?case
    using assms
    by (subst lines_free_wait.simps)
       (simp add: REG_READ32_def udelay_def dprintf_def emit_def)
qed

lemma lines_free_wait_now:
  "(ucast (reg_in w SDHCI_PRESENT_STATE_REG (nreads w)) :: 16 word)
      AND SDHCI_STATE_CMD_DAT_MASK s = 0
   \<Longrightarrow> lines_free_wait s w retry = (True, w\<lparr>nreads := Suc (nreads w)\<rparr>)"
  by (subst lines_free_wait.simps) (simp add: REG_READ32_def)

lemma prep_desc_table_frees:
  "sdhci_prep_desc_table a w buf nbytes = Inr (t, w') \<Longrightarrow>
   filter is_free (events w') = filter is_free (events w)"
  by (auto simp: sdhci_prep_desc_table_def memalign_def arch_clean_invalidate_cache_range_def
      emit_def Let_def split: if_splits sum.splits prod.splits)

lemma adma_transfer_frees:
  "sdhci_adma_transfer s a w cmd = Inr (t, w') \<Longrightarrow>
   filter is_free (events w') = filter is_free (events w)"
  by (auto simp: sdhci_adma_transfer_def Let_def REG_WRITE16_def REG_WRITE32_def emit_def
      split: sum.splits prod.splits dest!: prep_desc_table_frees)

lemma sd3_resp_r2: "SDHCI_CMD_RESP_R2 sd3_cmd_defs = 0x04"
  by (simp add: sd3_cmd_defs_def)


section \<open>Sending a command: claims\<close>

text \<open>
  Claim C4. Whenever \<^verbatim>\<open>sdhci_send_command\<close> returns a failure, it has released
  nothing: the \<^verbatim>\<open>free\<close> of line 713 is reached only after a command that completed,
  and the return of line 705 leaves before it. A descriptor table built for a command
  whose completion fails is therefore not released, where the claim asks for its release
  on that path as well.
\<close>

theorem send_command_failure_keeps_table:
  assumes run: "sdhci_send_command s k e a w cmd = Some (Inr (r, cmd', w'))" and r: "r \<noteq> 0"
  shows "filter is_free (events w') = filter is_free (events w)"
proof -
  obtain b w1 where lf: "lines_free_wait s w 0 = (b, w1)" by (cases "lines_free_wait s w 0")
  have f1: "filter is_free (events w1) = filter is_free (events w)"
    using lines_free_wait_filter [of is_free s w 0] lf by simp
  show ?thesis
  proof (cases b)
    case False
    then show ?thesis using run lf f1 by (auto simp: sdhci_send_command_def split: if_splits)
  next
    case True
    show ?thesis
    proof (cases "resp_type_sel s k (resp_type cmd)")
      case None
      then show ?thesis using run lf f1 True
        by (auto simp: sdhci_send_command_def dprintf_def emit_def split: if_splits)
    next
      case (Some rt)
      let ?w2 = "REG_WRITE8 w1 (SDHCI_CMD_TIMEOUT s) SDHCI_TIMEOUT_REG"
      let ?tr = "if data_present cmd \<noteq> 0 then sdhci_adma_transfer s a ?w2 cmd
                 else Inr (\<lparr>sg_ptr = 0, sg_entries = []\<rparr>, ?w2)"
      have f2: "filter is_free (events ?w2) = filter is_free (events w)"
        using f1 by (simp add: REG_WRITE8_def emit_def)
      show ?thesis
      proof (cases ?tr)
        case (Inl f)
        then show ?thesis using run lf True Some
          by (auto simp: sdhci_send_command_def Let_def split: if_splits)
      next
        case (Inr p)
        obtain sg_list w3 where p: "p = (sg_list, w3)" by (cases p)
        have f3: "filter is_free (events w3) = filter is_free (events w)"
          using Inr p f2 adma_transfer_frees [of s a ?w2 cmd sg_list w3]
          by (auto split: if_splits)
        let ?flags = "push_bit (SDHCI_CMD_RESP_TYPE_SEL_BIT s) rt
                         OR push_bit (SDHCI_CMD_DATA_PRESENT_BIT s) (ucast (data_present cmd))
                         OR push_bit (SDHCI_CMD_CMD_TYPE_BIT s) (ucast (cmd_type cmd))"
        let ?w5 = "REG_WRITE16 (REG_WRITE32 w3 (argument cmd) SDHCI_ARGUMENT_REG)
                     (SDHCI_PREP_CMD s (cmd_index cmd) ?flags) SDHCI_CMD_REG"
        have f5: "filter is_free (events ?w5) = filter is_free (events w)"
          using f3 by (simp add: REG_WRITE16_def REG_WRITE32_def emit_def)
        obtain r2 where c2: "sdhci_cmd_complete k e ?w5 cmd = Some (r2, cmd', w')"
          using run lf True Some Inr p r
          by (auto simp: sdhci_send_command_def Let_def split: if_splits option.splits)
        have "filter is_free (events w') = filter is_free (events ?w5)"
          by (rule cmd_complete_filter [OF _ _ _ c2]) simp_all
        then show ?thesis using f5 by simp
      qed
    qed
  qed
qed

text \<open>C4 on a single-block read that ends with a data CRC error: the table is allocated
  at 0x8000 and handed to the controller, the call returns 1, and no event releases
  it.\<close>

theorem send_command_failure_keeps_table_witness:
  "sdhci_send_command sd3_send_defs sd3_cmd_defs sd3_err_defs sd3_adma_defs
     (boot_world crc_error_regs) read_cmd =
     Some (Inr (1, read_cmd\<lparr>resp := (resp read_cmd)(0 := 0)\<rparr>,
       boot_world crc_error_regs\<lparr>nreads := 6, nallocs := 1,
         events :=
           [Write8 SDHCI_TIMEOUT_REG 0x0F,
            Memalign 4 8 0x8000,
            Clean_invalidate_cache 0x8000 8,
            Clean_invalidate_cache 0x8000 0,
            Write16 SDHCI_BLKSZ_REG 512,
            Write16 SDHCI_BLK_CNT_REG 1,
            Write32 SDHCI_ADM_ADDR_REG 0x8000,
            Write16 SDHCI_TRANS_MODE_REG 0x11,
            Write32 SDHCI_ARGUMENT_REG 0,
            Write16 SDHCI_CMD_REG 0x1122,
            Write16 SDHCI_NRML_INT_STS_REG 1,
            Write16 SDHCI_NRML_INT_STS_REG 2,
            Dprintf ''Error: DATA CRC error'',
            Dprintf ''Error: Command completed with errors'']\<rparr>))
   \<and> filter is_free
        [Write8 SDHCI_TIMEOUT_REG 0x0F,
            Memalign 4 8 0x8000,
            Clean_invalidate_cache 0x8000 8,
            Clean_invalidate_cache 0x8000 0,
            Write16 SDHCI_BLKSZ_REG 512,
            Write16 SDHCI_BLK_CNT_REG 1,
            Write32 SDHCI_ADM_ADDR_REG 0x8000,
            Write16 SDHCI_TRANS_MODE_REG 0x11,
            Write32 SDHCI_ARGUMENT_REG 0,
            Write16 SDHCI_CMD_REG 0x1122,
            Write16 SDHCI_NRML_INT_STS_REG 1,
            Write16 SDHCI_NRML_INT_STS_REG 2,
            Dprintf ''Error: DATA CRC error'',
            Dprintf ''Error: Command completed with errors''] = []"
proof -
  have run: "sdhci_send_command sd3_send_defs sd3_cmd_defs sd3_err_defs sd3_adma_defs
     (boot_world crc_error_regs) read_cmd =
     Some (Inr (1, read_cmd\<lparr>resp := (resp read_cmd)(0 := 0)\<rparr>,
       boot_world crc_error_regs\<lparr>nreads := 6, nallocs := 1,
         events :=
           [Write8 SDHCI_TIMEOUT_REG 0x0F,
            Memalign 4 8 0x8000,
            Clean_invalidate_cache 0x8000 8,
            Clean_invalidate_cache 0x8000 0,
            Write16 SDHCI_BLKSZ_REG 512,
            Write16 SDHCI_BLK_CNT_REG 1,
            Write32 SDHCI_ADM_ADDR_REG 0x8000,
            Write16 SDHCI_TRANS_MODE_REG 0x11,
            Write32 SDHCI_ARGUMENT_REG 0,
            Write16 SDHCI_CMD_REG 0x1122,
            Write16 SDHCI_NRML_INT_STS_REG 1,
            Write16 SDHCI_NRML_INT_STS_REG 2,
            Dprintf ''Error: DATA CRC error'',
            Dprintf ''Error: Command completed with errors'']\<rparr>))"
    by (simp add: sdhci_send_command_def lines_free_wait_now resp_type_sel_def
        sdhci_adma_transfer_def sdhci_prep_desc_table_def memalign_def
        arch_clean_invalidate_cache_range_def sizeof_desc_entry_def
        cmd_complete_crc_error_run sd3_resp_r2
        sd3_send_defs_def sd3_adma_defs_def read_cmd_def boot_world_def
        crc_error_regs_def REG_WRITE8_def REG_WRITE16_def REG_WRITE32_def emit_def Let_def)
  from send_command_failure_keeps_table [OF run] show ?thesis
    unfolding run by (simp add: boot_world_def)
qed

end
